theory Spec2Isabelle
  imports Main "HOL-Library.Log_Nat" "HOL-Library.Sublist" "HOL-Library.Word"
begin

section \<open>Python numbers\<close>

text \<open>
  \<open>count_tokens\<close> returns an \<open>int\<close> on the tokenizer path and a \<open>float\<close> on the fallback
  path (\<open>len(text.split()) * 1.3\<close>), so the arithmetic of \<open>fit_to_token_limit\<close> runs on a
  mix of both. A Python number is therefore either an unbounded integer or a double, the
  double given by its exact rational value. Arithmetic on two integers is exact; as soon as
  one operand is a float the other is converted and the exact result is rounded to the
  nearest double, ties to even (53-bit significand). Exponent range is not bounded: the
  magnitudes that occur here (token counts, seconds since 1970) are far from overflow and
  underflow.
\<close>

definition floor_log2 :: "rat \<Rightarrow> int" where
  "floor_log2 x = (let (p, q) = quotient_of x; k = bitlen p - bitlen q
                   in if 2 powi k \<le> x then k else k - 1)"

definition round_half_even :: "rat \<Rightarrow> int" where
  "round_half_even y = (let f = \<lfloor>y\<rfloor>; d = y - of_int f
                        in if d < 1/2 then f else if 1/2 < d then f + 1
                           else if even f then f else f + 1)"

definition round_double :: "rat \<Rightarrow> rat" where
  "round_double x = (if x = 0 then 0
     else let e = floor_log2 \<bar>x\<bar> - 52
          in sgn x * of_int (round_half_even (\<bar>x\<bar> * 2 powi (- e))) * 2 powi e)"

datatype pynum = PyInt int | PyFloat rat

fun py_val :: "pynum \<Rightarrow> rat" where
  "py_val (PyInt i) = of_int i"
| "py_val (PyFloat r) = r"

fun to_float :: "pynum \<Rightarrow> rat" where
  "to_float (PyInt i) = round_double (of_int i)"
| "to_float (PyFloat r) = r"

fun py_add :: "pynum \<Rightarrow> pynum \<Rightarrow> pynum" where
  "py_add (PyInt i) (PyInt j) = PyInt (i + j)"
| "py_add a b = PyFloat (round_double (to_float a + to_float b))"

fun py_sub :: "pynum \<Rightarrow> pynum \<Rightarrow> pynum" where
  "py_sub (PyInt i) (PyInt j) = PyInt (i - j)"
| "py_sub a b = PyFloat (round_double (to_float a - to_float b))"

fun py_mul :: "pynum \<Rightarrow> pynum \<Rightarrow> pynum" where
  "py_mul (PyInt i) (PyInt j) = PyInt (i * j)"
| "py_mul a b = PyFloat (round_double (to_float a * to_float b))"

text \<open>Comparisons between Python numbers are exact, also between an int and a float.\<close>

definition py_less :: "pynum \<Rightarrow> pynum \<Rightarrow> bool" where
  "py_less a b = (py_val a < py_val b)"

text \<open>\<open>int(x)\<close> truncates towards zero.\<close>

fun py_int :: "pynum \<Rightarrow> int" where
  "py_int (PyInt i) = i"
| "py_int (PyFloat r) = (if 0 \<le> r then \<lfloor>r\<rfloor> else \<lceil>r\<rceil>)"

text \<open>
  A number is well formed when, if it is a float, its value is a double: rounding leaves
  it alone. Every float the program computes is one.
\<close>

fun wf_num :: "pynum \<Rightarrow> bool" where
  "wf_num (PyInt i) = True"
| "wf_num (PyFloat r) = (round_double r = r)"

section \<open>Python strings\<close>

text \<open>
  A \<open>str\<close> is modelled as a \<open>string\<close>, each \<open>char\<close> standing for the code point of the same
  number. \<open>is_space\<close> is \<open>str.isspace\<close> on these code points, which is what \<open>str.split()\<close>
  and \<open>str.strip()\<close> use. \<open>upper\<close> and \<open>lower\<close> are needed only for substring tests against
  ASCII patterns, so the ASCII letters are the ones that matter.
\<close>

definition is_space :: "char \<Rightarrow> bool" where
  "is_space c = (of_char c \<in> {9, 10, 11, 12, 13, 28, 29, 30, 31, 32, 133, 160 :: nat})"

fun split_from :: "string \<Rightarrow> string \<Rightarrow> string list" where
  "split_from cur [] = (if cur = [] then [] else [cur])"
| "split_from cur (c # cs) =
     (if is_space c then (if cur = [] then split_from [] cs else cur # split_from [] cs)
      else split_from (cur @ [c]) cs)"

definition str_split :: "string \<Rightarrow> string list" where
  "str_split text = split_from [] text"

definition strip :: "string \<Rightarrow> string" where
  "strip s = rev (dropWhile is_space (rev (dropWhile is_space s)))"

definition upper_char :: "char \<Rightarrow> char" where
  "upper_char c = (let n = of_char c :: nat in if 97 \<le> n \<and> n \<le> 122 then char_of (n - 32) else c)"

definition lower_char :: "char \<Rightarrow> char" where
  "lower_char c = (let n = of_char c :: nat in if 65 \<le> n \<and> n \<le> 90 then char_of (n + 32) else c)"

definition upper :: "string \<Rightarrow> string" where
  "upper s = map upper_char s"

definition lower :: "string \<Rightarrow> string" where
  "lower s = map lower_char s"

text \<open>\<open>pat in s\<close> on strings.\<close>

definition str_in :: "string \<Rightarrow> string \<Rightarrow> bool" where
  "str_in pat s = sublist pat s"

section \<open>Exceptions\<close>

datatype py_exc =
    HTTPException nat string
  | KeyError string
  | Exception string

section \<open>Token counter\<close>

text \<open>
  \<open>encoder\<close> is the module-level tokenizer: \<open>None\<close> when \<open>tiktoken\<close> could not be loaded,
  otherwise the \<open>encode\<close> function of the loaded encoding, which yields a token list or
  raises (\<open>None\<close>).
\<close>

type_synonym encoder = "(string \<Rightarrow> int list option) option"

definition fallback_count :: "string \<Rightarrow> pynum" where
  "fallback_count text = py_mul (PyInt (int (length (str_split text)))) (PyFloat (round_double (13/10)))"

definition count_tokens :: "encoder \<Rightarrow> string \<Rightarrow> pynum" where
  "count_tokens enc text =
     (case enc of
        None \<Rightarrow> fallback_count text
      | Some encode \<Rightarrow>
          (case encode text of
             Some toks \<Rightarrow> PyInt (int (length toks))
           | None \<Rightarrow> fallback_count text))"

section \<open>Context trimming\<close>

record message =
  role :: string
  content :: string

definition MAX_TOKENS_CHAT :: int where
  "MAX_TOKENS_CHAT = 500"

definition MAX_TOTAL_TOKENS :: int where
  "MAX_TOTAL_TOKENS = 10000"

text \<open>
  The body of the \<open>for msg in reversed(messages)\<close> loop. \<open>kept\<close> grows by \<open>append\<close>; the
  three exits of the loop (both \<open>break\<close>s and exhaustion) return \<open>kept\<close>. The source
  overwrites \<open>msg["content"]\<close> in place; the model returns the rewritten message.
\<close>

fun fit_loop :: "encoder \<Rightarrow> pynum \<Rightarrow> pynum \<Rightarrow> message list \<Rightarrow> message list \<Rightarrow> message list" where
  "fit_loop enc available tot kept [] = kept"
| "fit_loop enc available tot kept (msg # rest) =
     (let msg_tokens = count_tokens enc (content msg) in
      if py_less available (py_add tot msg_tokens) then
        (let max_chars = py_int (py_mul available (PyFloat (7/2))) in
         if 50 < max_chars then
           (let msg' = msg\<lparr>content := take (nat max_chars) (content msg) @ ''...''\<rparr>;
                msg_tokens' = count_tokens enc (content msg');
                total' = py_add tot msg_tokens'
            in if py_less available total' then kept @ [msg']
               else fit_loop enc available total' (kept @ [msg']) rest)
         else kept)
      else
        (let total' = py_add tot msg_tokens
         in if py_less available total' then kept @ [msg]
            else fit_loop enc available total' (kept @ [msg]) rest))"

definition available_tokens :: "encoder \<Rightarrow> string \<Rightarrow> pynum" where
  "available_tokens enc system_prompt =
     py_sub (py_sub (PyInt (MAX_TOTAL_TOKENS - MAX_TOKENS_CHAT)) (count_tokens enc system_prompt))
            (PyInt 100)"

definition fit_to_token_limit :: "encoder \<Rightarrow> message list \<Rightarrow> string \<Rightarrow> py_exc + message list" where
  "fit_to_token_limit enc messages system_prompt =
     (let available = available_tokens enc system_prompt in
      if py_less available (PyInt 500) then Inl (HTTPException 500 ''System prompt too long'')
      else Inr (rev (fit_loop enc available (PyInt 0) [] (rev messages))))"

text \<open>
  The cost of a message list as the loop accumulates it: newest message first, starting
  from the integer \<open>0\<close>.
\<close>

definition total_cost :: "encoder \<Rightarrow> message list \<Rightarrow> pynum" where
  "total_cost enc messages = foldl py_add (PyInt 0) (map (\<lambda>m. count_tokens enc (content m)) (rev messages))"

text \<open>The character budget of a truncated message, \<open>int(available * 3.5)\<close>.\<close>

definition max_chars_of :: "encoder \<Rightarrow> string \<Rightarrow> int" where
  "max_chars_of enc system_prompt = py_int (py_mul (available_tokens enc system_prompt) (PyFloat (7/2)))"


text \<open>A test message body: \<open>n + 1\<close> one-letter words separated by single blanks.\<close>

definition sentence :: "nat \<Rightarrow> string" where
  "sentence n = concat (replicate n ''a '') @ ''a''"

text \<open>A second test message body: a word of \<open>n\<close> letters, then \<open>k + 1\<close> one-letter words.\<close>

definition headed :: "nat \<Rightarrow> nat \<Rightarrow> string" where
  "headed n k = replicate n CHR ''a'' @ '' '' @ sentence k"

text \<open>
  How a message of the input can appear in the output: as it was, or with its content cut
  to the character budget and an ellipsis appended.
\<close>

definition kept_as :: "int \<Rightarrow> message \<Rightarrow> message \<Rightarrow> bool" where
  "kept_as max_chars out_msg msg =
     (out_msg = msg \<or> out_msg = msg\<lparr>content := take (nat max_chars) (content msg) @ ''...''\<rparr>)"

section \<open>Turn validation and the chat endpoint\<close>

text \<open>
  \<open>chat\<close> first rebuilds the history: every entry with non-empty content that is not only
  whitespace is kept, its content stripped. The session check that FastAPI runs before the
  handler (\<open>get_current_user\<close>) is not part of the handler's body and is left out here.
\<close>

definition clean_history :: "message list \<Rightarrow> message list" where
  "clean_history history =
     map (\<lambda>m. \<lparr>role = role m, content = strip (content m)\<rparr>)
         (filter (\<lambda>m. content m \<noteq> [] \<and> strip (content m) \<noteq> []) history)"

text \<open>\<open>for i in range(1, len(messages))\<close>: does some message repeat the role before it?\<close>

fun same_role_adjacent :: "message list \<Rightarrow> bool" where
  "same_role_adjacent (m # m' # rest) = (role m' = role m \<or> same_role_adjacent (m' # rest))"
| "same_role_adjacent _ = False"

definition validate_turns :: "message list \<Rightarrow> py_exc + unit" where
  "validate_turns messages =
     (if messages = [] then Inl (HTTPException 400 ''Empty history'')
      else if same_role_adjacent messages then Inl (HTTPException 400 ''Wait for patient reply'')
      else if role (last messages) \<noteq> ''user'' then Inl (HTTPException 400 ''Therapist must speak last'')
      else Inr ())"

section \<open>Model invocation\<close>

text \<open>
  What one \<open>invoke_model\<close> round trip can produce inside the \<open>try\<close> of
  \<open>_invoke_bedrock_sync\<close>: a \<open>ClientError\<close> with its error code, any other exception (with
  its text), or a decoded response whose \<open>content\<close> is a list of blocks.
\<close>

record content_block =
  block_type :: string
  block_text :: string

datatype provider_reply =
    ClientError string
  | OtherError string
  | Response "content_block list"

definition invoke_bedrock_sync :: "provider_reply \<Rightarrow> py_exc + string" where
  "invoke_bedrock_sync reply =
     (case reply of
        Response blocks \<Rightarrow>
          (case blocks of
             b # _ \<Rightarrow> if block_type b = ''text'' then Inr (block_text b)
                      else Inl (HTTPException 500 ''Call failed: No text in response'')
           | [] \<Rightarrow> Inl (HTTPException 500 ''Call failed: No text in response''))
      | ClientError code \<Rightarrow>
          if code = ''ThrottlingException'' then Inl (HTTPException 429 ''Rate limit. Wait 10s.'')
          else Inl (HTTPException 500 (''Bedrock error: '' @ code))
      | OtherError e \<Rightarrow> Inl (HTTPException 500 (''Call failed: '' @ e)))"

text \<open>
  The world outside the process: how many provider calls have been made and which waits
  (\<open>asyncio.sleep\<close>, in seconds) have happened. \<open>bedrock_client\<close> is \<open>None\<close> when start-up
  failed; otherwise it answers the \<open>n\<close>-th call made through it.
\<close>

record world =
  calls :: nat
  sleeps :: "rat list"

type_synonym bedrock_client = "(nat \<Rightarrow> provider_reply) option"

definition invoke_bedrock_claude :: "bedrock_client \<Rightarrow> world \<Rightarrow> (py_exc + string) \<times> world" where
  "invoke_bedrock_claude client w =
     (case client of
        None \<Rightarrow> (Inl (HTTPException 500 ''Bedrock not ready''), w)
      | Some provider \<Rightarrow> (invoke_bedrock_sync (provider (calls w)), w\<lparr>calls := Suc (calls w)\<rparr>))"

definition sleep :: "rat \<Rightarrow> world \<Rightarrow> world" where
  "sleep d w = w\<lparr>sleeps := sleeps w @ [d]\<rparr>"

record chat_request =
  history :: "message list"
  persona_prompt :: string

definition chat :: "encoder \<Rightarrow> bedrock_client \<Rightarrow> chat_request \<Rightarrow> world \<Rightarrow> (py_exc + string) \<times> world" where
  "chat enc client request w =
     (let messages = clean_history (history request) in
      case validate_turns messages of
        Inl e \<Rightarrow> (Inl e, w)
      | Inr _ \<Rightarrow>
          (case fit_to_token_limit enc messages (persona_prompt request) of
             Inl e \<Rightarrow> (Inl e, w)
           | Inr fitted \<Rightarrow> invoke_bedrock_claude client w))"

section \<open>Bulk report analysis\<close>

type_synonym pydict = "string \<rightharpoonup> string"

definition getitem :: "pydict \<Rightarrow> string \<Rightarrow> py_exc + string" where
  "getitem d k = (case d k of None \<Rightarrow> Inl (KeyError k) | Some v \<Rightarrow> Inr v)"

record improvement_record =
  therapist_message :: string
  patient_response :: string
  improvement :: string
  needs_improvement :: bool

text \<open>
  \<open>str(e)\<close>. What \<open>str\<close> gives for an \<open>HTTPException\<close> is decided by the web framework, so it
  is a parameter \<open>http_str\<close> of the model.
\<close>

fun exc_str :: "(nat \<Rightarrow> string \<Rightarrow> string) \<Rightarrow> py_exc \<Rightarrow> string" where
  "exc_str http_str (HTTPException code detail) = http_str code detail"
| "exc_str http_str (KeyError k) = [CHR 0x27] @ k @ [CHR 0x27]"
| "exc_str http_str (Exception m) = m"

text \<open>
  \<open>for attempt in range(max_retries)\<close>, run on the attempts still to make. The result is the
  value of \<open>improvement\<close> when the loop ends (\<open>None\<close> if it was never assigned) or the
  exception that left the loop.
\<close>

fun retry_loop :: "bedrock_client \<Rightarrow> nat \<Rightarrow> nat list \<Rightarrow> int \<Rightarrow> world \<Rightarrow> (py_exc + string option) \<times> world" where
  "retry_loop client max_retries [] retry_delay w = (Inr None, w)"
| "retry_loop client max_retries (attempt # rest) retry_delay w =
     (case invoke_bedrock_claude client w of
        (Inr text, w') \<Rightarrow> (Inr (Some text), w')
      | (Inl (HTTPException status detail), w') \<Rightarrow>
          if status = 429 \<and> int attempt < int max_retries - 1
          then retry_loop client max_retries rest (retry_delay * 2) (sleep (of_int retry_delay) w')
          else (Inl (HTTPException status detail), w')
      | (Inl e, w') \<Rightarrow>
          if int attempt < int max_retries - 1
          then retry_loop client max_retries rest (retry_delay * 2) (sleep (of_int retry_delay) w')
          else (Inl e, w'))"

definition fallback_text :: "string \<Rightarrow> string" where
  "fallback_text error_msg =
     ''Unable to generate detailed analysis at this time. '' @
     (if str_in ''rate limit'' (lower error_msg) \<or> str_in ''429'' error_msg
      then ''The AI service is currently busy. This response will be analyzed in the summary above.''
      else if str_in ''timeout'' (lower error_msg)
      then ''The analysis request timed out. Your overall performance is covered in the main report.''
      else ''Please refer to the overall evaluation above for guidance on this exchange.'')"

text \<open>The two dictionaries that the loop appends to \<open>improvements\<close>.\<close>

definition analysis_record :: "string \<Rightarrow> string \<Rightarrow> string \<Rightarrow> improvement_record" where
  "analysis_record msg_content patient text =
     \<lparr>therapist_message = msg_content, patient_response = patient,
      improvement = text,
      needs_improvement = str_in ''NEEDS_IMPROVEMENT'' (upper text)\<rparr>"

definition fallback_record :: "(nat \<Rightarrow> string \<Rightarrow> string) \<Rightarrow> string \<Rightarrow> string \<Rightarrow> py_exc \<Rightarrow> improvement_record" where
  "fallback_record http_str msg_content patient e =
     \<lparr>therapist_message = msg_content, patient_response = patient,
      improvement = fallback_text (exc_str http_str e),
      needs_improvement = False\<rparr>"

text \<open>
  The \<open>try\<close> block of one therapist message, after \<open>msg['content']\<close> has been read for the
  prompt: the retry loop, then either the parsed record or the \<open>raise\<close> that the handler
  turns into a fallback record.
\<close>

definition analyze_utterance ::
  "(nat \<Rightarrow> string \<Rightarrow> string) \<Rightarrow> bedrock_client \<Rightarrow> string \<Rightarrow> string \<Rightarrow> world \<Rightarrow> improvement_record \<times> world" where
  "analyze_utterance http_str client msg_content patient w =
     (case retry_loop client 3 [0 ..< 3] 1 w of
        (Inr (Some text), w') \<Rightarrow>
          if text \<noteq> [] then (analysis_record msg_content patient text, w')
          else (fallback_record http_str msg_content patient (Exception ''Failed after all retries''), w')
      | (Inr None, w') \<Rightarrow>
          (fallback_record http_str msg_content patient (Exception ''Failed after all retries''), w')
      | (Inl e, w') \<Rightarrow> (fallback_record http_str msg_content patient e, w'))"

text \<open>
  The reads of the neighbouring entries: the patient's reply (the next entry when it is an
  assistant turn) and the context line built from up to two previous entries
  (\<open>range(max(0, i-2), i)\<close>; on \<open>nat\<close>, \<open>i - 2\<close> already stops at 0). Each subscript raises
  \<open>KeyError\<close> when the key is missing. The prompt built from these strings goes to the
  provider only; the provider's answer to the \<open>n\<close>-th call is arbitrary in the model.
\<close>

definition patient_response_of :: "pydict list \<Rightarrow> nat \<Rightarrow> py_exc + string" where
  "patient_response_of chat_history i =
     (if i + 1 < length chat_history then
        (case getitem (chat_history ! (i + 1)) ''role'' of
           Inl e \<Rightarrow> Inl e
         | Inr r \<Rightarrow> if r = ''assistant'' then getitem (chat_history ! (i + 1)) ''content'' else Inr [])
      else Inr [])"

fun context_parts :: "pydict list \<Rightarrow> nat list \<Rightarrow> py_exc + string list" where
  "context_parts chat_history [] = Inr []"
| "context_parts chat_history (j # js) =
     (case getitem (chat_history ! j) ''role'' of
        Inl e \<Rightarrow> Inl e
      | Inr r \<Rightarrow>
          (case getitem (chat_history ! j) ''content'' of
             Inl e \<Rightarrow> Inl e
           | Inr c \<Rightarrow>
               (case context_parts chat_history js of
                  Inl e \<Rightarrow> Inl e
                | Inr ps \<Rightarrow> Inr ((r @ '': '' @ take 100 c) # ps))))"

fun join :: "string \<Rightarrow> string list \<Rightarrow> string" where
  "join sep [] = []"
| "join sep [p] = p"
| "join sep (p # ps) = p @ sep @ join sep ps"

definition context_of :: "pydict list \<Rightarrow> nat \<Rightarrow> py_exc + string" where
  "context_of chat_history i =
     (if 0 < i then
        (case context_parts chat_history [i - 2 ..< i] of
           Inl e \<Rightarrow> Inl e
         | Inr ps \<Rightarrow> Inr (join '' | '' ps))
      else Inr [])"

text \<open>
  One iteration of \<open>for i in range(len(chat_history))\<close>. A \<open>KeyError\<close> outside the \<open>try\<close>,
  or in the handler itself, leaves the endpoint; everything the model call can raise ends
  in a fallback record.
\<close>

definition bulk_step ::
  "(nat \<Rightarrow> string \<Rightarrow> string) \<Rightarrow> bedrock_client \<Rightarrow> pydict list \<Rightarrow> nat \<Rightarrow> improvement_record list \<Rightarrow> world
     \<Rightarrow> (py_exc + improvement_record list) \<times> world" where
  "bulk_step http_str client chat_history i improvements w =
     (case getitem (chat_history ! i) ''role'' of
        Inl e \<Rightarrow> (Inl e, w)
      | Inr r \<Rightarrow>
          if r = ''user'' then
            (case patient_response_of chat_history i of
               Inl e \<Rightarrow> (Inl e, w)
             | Inr patient \<Rightarrow>
                 (case context_of chat_history i of
                    Inl e \<Rightarrow> (Inl e, w)
                  | Inr context \<Rightarrow>
                      (case getitem (chat_history ! i) ''content'' of
                         Inl e \<Rightarrow> (Inl e, w)
                       | Inr msg_content \<Rightarrow>
                           (let (rec, w') = analyze_utterance http_str client msg_content patient w;
                                w'' = (if int i < int (length chat_history) - 1 then sleep (1/2) w' else w')
                            in (Inr (improvements @ [rec]), w'')))))
          else (Inr improvements, w))"

fun bulk_loop ::
  "(nat \<Rightarrow> string \<Rightarrow> string) \<Rightarrow> bedrock_client \<Rightarrow> pydict list \<Rightarrow> nat list \<Rightarrow> improvement_record list \<Rightarrow> world
     \<Rightarrow> (py_exc + improvement_record list) \<times> world" where
  "bulk_loop http_str client chat_history [] improvements w = (Inr improvements, w)"
| "bulk_loop http_str client chat_history (i # rest) improvements w =
     (case bulk_step http_str client chat_history i improvements w of
        (Inl e, w') \<Rightarrow> (Inl e, w')
      | (Inr improvements', w') \<Rightarrow> bulk_loop http_str client chat_history rest improvements' w')"

record report_request =
  transcript :: string
  chat_history :: "pydict list option"

record report_response =
  report :: string
  improvements :: "improvement_record list"

definition generate_report ::
  "(nat \<Rightarrow> string \<Rightarrow> string) \<Rightarrow> bedrock_client \<Rightarrow> report_request \<Rightarrow> world \<Rightarrow> (py_exc + report_response) \<times> world" where
  "generate_report http_str client request w =
     (case invoke_bedrock_claude client w of
        (Inl e, w') \<Rightarrow> (Inl e, w')
      | (Inr main_report, w') \<Rightarrow>
          (case chat_history request of
             None \<Rightarrow> (Inr \<lparr>report = main_report, improvements = []\<rparr>, w')
           | Some h \<Rightarrow>
               if h = [] then (Inr \<lparr>report = main_report, improvements = []\<rparr>, w')
               else (case bulk_loop http_str client h [0 ..< length h] [] w' of
                       (Inl e, w'') \<Rightarrow> (Inl e, w'')
                     | (Inr imps, w'') \<Rightarrow> (Inr \<lparr>report = main_report, improvements = imps\<rparr>, w''))))"

text \<open>
  The bulk analysis as the specification describes it, for comparison with the loop: the
  therapist utterances of a history, each with the patient's reply and whether a pacing
  wait follows it, and the analysis of each in turn.
\<close>

definition lookup :: "pydict \<Rightarrow> string \<Rightarrow> string" where
  "lookup d k = (case d k of Some v \<Rightarrow> v | None \<Rightarrow> [])"

definition utterance_at :: "pydict list \<Rightarrow> nat \<Rightarrow> string \<times> string \<times> bool" where
  "utterance_at h i =
     (lookup (h ! i) ''content'',
      (if i + 1 < length h \<and> (h ! (i + 1)) ''role'' = Some ''assistant''
       then lookup (h ! (i + 1)) ''content'' else []),
      i + 1 < length h)"

definition utterances :: "pydict list \<Rightarrow> (string \<times> string \<times> bool) list" where
  "utterances h = map (utterance_at h) (filter (\<lambda>i. (h ! i) ''role'' = Some ''user'') [0 ..< length h])"

fun analyze_all ::
  "(nat \<Rightarrow> string \<Rightarrow> string) \<Rightarrow> bedrock_client \<Rightarrow> (string \<times> string \<times> bool) list \<Rightarrow> world
     \<Rightarrow> improvement_record list \<times> world" where
  "analyze_all http_str client [] w = ([], w)"
| "analyze_all http_str client ((msg_content, patient, pace) # rest) w =
     (let (rec, w') = analyze_utterance http_str client msg_content patient w;
          (recs, w'') = analyze_all http_str client rest (if pace then sleep (1/2) w' else w')
      in (rec # recs, w''))"

definition well_keyed :: "pydict list \<Rightarrow> bool" where
  "well_keyed h = list_all (\<lambda>m. m ''role'' \<noteq> None \<and> m ''content'' \<noteq> None) h"

text \<open>
  Test fixtures: a world in which nothing has happened yet; a provider that throttles its
  first \<open>k\<close> calls and then answers with a given text; a provider that rejects exactly
  call \<open>k\<close> with an error that is no rate limit; and the \<open>str\<close> of an \<open>HTTPException\<close> as
  Starlette prints it, \<open>"{status_code}: {detail}"\<close>.
\<close>

definition idle_world :: world where
  "idle_world = \<lparr>calls = 0, sleeps = []\<rparr>"

definition throttled_then :: "nat \<Rightarrow> string \<Rightarrow> nat \<Rightarrow> provider_reply" where
  "throttled_then k text n =
     (if n < k then ClientError ''ThrottlingException''
      else Response [\<lparr>block_type = ''text'', block_text = text\<rparr>])"

definition failing_at :: "nat \<Rightarrow> nat \<Rightarrow> provider_reply" where
  "failing_at k n =
     (if n = k then ClientError ''ValidationException''
      else Response [\<lparr>block_type = ''text'', block_text = ''STATUS: GOOD''\<rparr>])"

fun decimal :: "nat \<Rightarrow> string" where
  "decimal n = (if n < 10 then [char_of (48 + n)] else decimal (n div 10) @ [char_of (48 + n mod 10)])"

definition http_exception_str :: "nat \<Rightarrow> string \<Rightarrow> string" where
  "http_exception_str status detail = decimal status @ '': '' @ detail"

definition user_turn :: "string \<Rightarrow> pydict" where
  "user_turn text = [''role'' \<mapsto> ''user'', ''content'' \<mapsto> text]"

definition five_turns :: "pydict list" where
  "five_turns = [user_turn ''one'', user_turn ''two'', user_turn ''three'', user_turn ''four'', user_turn ''five'']"

section \<open>Sessions\<close>

text \<open>
  A session token is the hex digest of a SHA-256 hash over the e-mail address, a clock
  reading and 16 random bytes. The hash function is a parameter; \<open>hexdigest\<close> writes its
  256-bit value as 64 lower-case hexadecimal digits.
\<close>

type_synonym token = string

type_synonym sha256 = "string \<Rightarrow> rat \<Rightarrow> 8 word list \<Rightarrow> 256 word"

definition hex_digit :: "nat \<Rightarrow> char" where
  "hex_digit n = ''0123456789abcdef'' ! (n mod 16)"

definition hexdigest :: "256 word \<Rightarrow> string" where
  "hexdigest h = map (\<lambda>i. hex_digit (unat h div 16 ^ (63 - i))) [0 ..< 64]"

record session_data =
  email :: string
  created_at :: rat

text \<open>
  The value stored under a Redis key is a string: either the JSON text of a session (which
  \<open>json.loads\<close> maps back to the same e-mail address and the same double) or a string
  that is empty or that \<open>json.loads\<close> rejects. A key set with \<open>SETEX\<close> carries its deadline;
  a \<open>GET\<close> after the deadline finds nothing. Redis is taken to read the same clock as the
  process and to answer every command.
\<close>

datatype payload = Session_json session_data | Malformed string

type_synonym redis = "token \<rightharpoonup> payload \<times> rat"

definition redis_setex :: "redis \<Rightarrow> rat \<Rightarrow> token \<Rightarrow> rat \<Rightarrow> payload \<Rightarrow> redis" where
  "redis_setex r now k ttl v = r(k \<mapsto> (v, now + ttl))"

definition redis_get :: "redis \<Rightarrow> rat \<Rightarrow> token \<Rightarrow> payload option" where
  "redis_get r now k =
     (case r k of
        None \<Rightarrow> None
      | Some (v, deadline) \<Rightarrow> if deadline < now then None else Some v)"

definition redis_delete :: "redis \<Rightarrow> token \<Rightarrow> redis" where
  "redis_delete r k = r(k := None)"

text \<open>
  The two module-level stores. \<open>redis_client\<close> is \<open>None\<close> when Redis was not reachable at
  start-up; only then is \<open>active_sessions\<close> used.
\<close>

record server =
  redis_client :: "redis option"
  active_sessions :: "token \<rightharpoonup> session_data"

text \<open>
  \<open>create_session\<close> reads the clock twice: \<open>t_token\<close> goes into the hash, \<open>now\<close> becomes
  \<open>created_at\<close> and is the time at which Redis receives the \<open>SETEX\<close>.
\<close>

definition create_session :: "sha256 \<Rightarrow> server \<Rightarrow> string \<Rightarrow> rat \<Rightarrow> 8 word list \<Rightarrow> rat \<Rightarrow> token \<times> server" where
  "create_session sha s email_addr t_token urandom now =
     (let session_token = hexdigest (sha email_addr t_token urandom);
          data = \<lparr>email = email_addr, created_at = now\<rparr>
      in case redis_client s of
           Some r \<Rightarrow> (session_token, s\<lparr>redis_client := Some (redis_setex r now session_token 86400 (Session_json data))\<rparr>)
         | None \<Rightarrow> (session_token, s\<lparr>active_sessions := (active_sessions s)(session_token \<mapsto> data)\<rparr>))"

text \<open>The age of a session as the code computes it: a subtraction of two doubles.\<close>

definition elapsed :: "rat \<Rightarrow> rat \<Rightarrow> rat" where
  "elapsed now created = round_double (now - created)"

definition verify_session :: "server \<Rightarrow> token option \<Rightarrow> rat \<Rightarrow> string option \<times> server" where
  "verify_session s session_token now =
     (case session_token of
        None \<Rightarrow> (None, s)
      | Some tok \<Rightarrow>
          if tok = [] then (None, s)
          else
            (case redis_client s of
               Some r \<Rightarrow>
                 (case redis_get r now tok of
                    None \<Rightarrow> (None, s)
                  | Some (Malformed _) \<Rightarrow> (None, s)
                  | Some (Session_json session) \<Rightarrow>
                      if 86400 < elapsed now (created_at session)
                      then (None, s\<lparr>redis_client := Some (redis_delete r tok)\<rparr>)
                      else (Some (email session), s))
             | None \<Rightarrow>
                 (case active_sessions s tok of
                    None \<Rightarrow> (None, s)
                  | Some session \<Rightarrow>
                      if 86400 < elapsed now (created_at session)
                      then (None, s\<lparr>active_sessions := (active_sessions s)(tok := None)\<rparr>)
                      else (Some (email session), s))))"

definition logout :: "server \<Rightarrow> token option \<Rightarrow> server" where
  "logout s session_token =
     (case redis_client s of
        Some r \<Rightarrow>
          (case session_token of
             Some tok \<Rightarrow> if tok \<noteq> [] then s\<lparr>redis_client := Some (redis_delete r tok)\<rparr> else s
           | None \<Rightarrow> s)
      | None \<Rightarrow>
          (case session_token of
             Some tok \<Rightarrow> if tok \<in> dom (active_sessions s)
                         then s\<lparr>active_sessions := (active_sessions s)(tok := None)\<rparr> else s
           | None \<Rightarrow> s))"


text \<open>Test fixtures: a hash function and a server without Redis and without sessions.\<close>

definition zero_hash :: sha256 where
  "zero_hash e t u = 0"

definition dev_server :: server where
  "dev_server = \<lparr>redis_client = None, active_sessions = Map.empty\<rparr>"

section \<open>Rounding to double precision\<close>

text \<open>
  \<open>floor_log2\<close> is the binary exponent of a positive rational; \<open>round_double\<close> is
  monotone, idempotent, and exact on every integer of magnitude up to \<open>2 ^ 53\<close>.
\<close>

lemma int_powi_bounds:
  fixes p :: int
  assumes "0 < p"
  shows "(2::rat) powi (bitlen p - 1) \<le> of_int p" "of_int p < (2::rat) powi (bitlen p)"
proof -
  from bitlen_bounds[OF assms] have a: "2 ^ nat (bitlen p - 1) \<le> p" and b: "p < 2 ^ nat (bitlen p)"
    by auto
  have bp: "1 \<le> bitlen p" using assms bitlen_eq_zero_iff[of p] bitlen_nonneg[of p] by linarith
  have "(2::rat) powi (bitlen p - 1) = 2 ^ nat (bitlen p - 1)"
    using bp by (simp add: power_int_def)
  also have "\<dots> = of_int (2 ^ nat (bitlen p - 1))" by simp
  also have "\<dots> \<le> of_int p" using a by (simp only: of_int_le_iff)
  finally show "(2::rat) powi (bitlen p - 1) \<le> of_int p" .
  have "(2::rat) powi (bitlen p) = of_int (2 ^ nat (bitlen p))"
    using bp by (simp add: power_int_def)
  moreover have "(of_int p :: rat) < of_int (2 ^ nat (bitlen p))" using b by (simp only: of_int_less_iff)
  ultimately show "of_int p < (2::rat) powi (bitlen p)" by simp
qed

lemma floor_log2_bounds:
  assumes "0 < x"
  shows "2 powi (floor_log2 x) \<le> x" "x < 2 powi (floor_log2 x + 1)"
proof -
  obtain p q where pq: "quotient_of x = (p, q)" by (cases "quotient_of x")
  have q: "0 < q" using pq quotient_of_denom_pos by blast
  have x: "x = of_int p / of_int q" using pq quotient_of_div by blast
  have p: "0 < p" using assms q x by (simp add: zero_less_divide_iff)
  define k where "k = bitlen p - bitlen q"
  have "x < 2 powi (bitlen p) / 2 powi (bitlen q - 1)"
    unfolding x using int_powi_bounds[OF p] int_powi_bounds[OF q] p q
    by (intro frac_less) auto
  also have "\<dots> = 2 powi (k + 1)"
  proof -
    have e: "bitlen p - (bitlen q - 1) = k + 1" by (simp add: k_def)
    have "(2::rat) powi bitlen p / 2 powi (bitlen q - 1) = 2 powi (bitlen p - (bitlen q - 1))"
      by (rule power_int_diff[symmetric]) simp
    then show ?thesis unfolding e .
  qed
  finally have up: "x < 2 powi (k + 1)" .
  have "2 powi (bitlen p - 1) / 2 powi (bitlen q) \<le> x"
    unfolding x using int_powi_bounds[OF p] int_powi_bounds[OF q] p q
    by (intro frac_le) auto
  moreover have "2 powi (bitlen p - 1) / 2 powi (bitlen q) = (2::rat) powi (k - 1)"
  proof -
    have e: "bitlen p - 1 - bitlen q = k - 1" by (simp add: k_def)
    have "(2::rat) powi (bitlen p - 1) / 2 powi bitlen q = 2 powi (bitlen p - 1 - bitlen q)"
      by (rule power_int_diff[symmetric]) simp
    then show ?thesis unfolding e .
  qed
  ultimately have lo: "2 powi (k - 1) \<le> x" by simp
  have il: "floor_log2 x = (if 2 powi k \<le> x then k else k - 1)"
    by (simp add: floor_log2_def pq k_def Let_def)
  show "2 powi (floor_log2 x) \<le> x" using lo by (simp add: il)
  show "x < 2 powi (floor_log2 x + 1)" using up by (auto simp add: il not_le)
qed

lemma floor_log2_unique:
  assumes "0 < x" "2 powi k \<le> x" "x < 2 powi (k + 1)"
  shows "floor_log2 x = k"
proof -
  from floor_log2_bounds[OF assms(1)] assms
  have h: "(2::rat) powi k < 2 powi (floor_log2 x + 1)" "(2::rat) powi (floor_log2 x) < 2 powi (k + 1)"
    by linarith+
  have "k < floor_log2 x + 1"
  proof (rule ccontr)
    assume "\<not> k < floor_log2 x + 1"
    then have "(2::rat) powi (floor_log2 x + 1) \<le> 2 powi k"
      by (intro power_int_increasing) auto
    with h(1) show False by simp
  qed
  moreover have "floor_log2 x < k + 1"
  proof (rule ccontr)
    assume "\<not> floor_log2 x < k + 1"
    then have "(2::rat) powi (k + 1) \<le> 2 powi (floor_log2 x)"
      by (intro power_int_increasing) auto
    with h(2) show False by simp
  qed
  ultimately show ?thesis by linarith
qed


lemma two_powi_add:
  assumes "a + b = c"
  shows "(2::rat) powi a * 2 powi b = 2 powi c"
proof -
  have "(2::rat) powi a * 2 powi b = 2 powi (a + b)"
    by (rule power_int_add[symmetric]) simp
  then show ?thesis by (simp only: assms)
qed

lemma round_half_even_of_int: "round_half_even (of_int n) = n"
  by (simp add: round_half_even_def)

lemma round_half_even_lower: "\<lfloor>y\<rfloor> \<le> round_half_even y"
  by (simp add: round_half_even_def Let_def)

lemma round_half_even_upper: "round_half_even y \<le> \<lfloor>y\<rfloor> + 1"
  by (simp add: round_half_even_def Let_def)

lemma round_half_even_mono:
  assumes "y \<le> z"
  shows "round_half_even y \<le> round_half_even z"
proof (cases "\<lfloor>y\<rfloor> = \<lfloor>z\<rfloor>")
  case True
  with assms have "y - of_int \<lfloor>z\<rfloor> \<le> z - of_int \<lfloor>z\<rfloor>" by simp
  with True show ?thesis by (auto simp add: round_half_even_def Let_def)
next
  case False
  with assms have "\<lfloor>y\<rfloor> < \<lfloor>z\<rfloor>" using floor_mono[OF assms] by linarith
  then have "round_half_even y \<le> \<lfloor>z\<rfloor>" using round_half_even_upper[of y] by linarith
  also have "\<dots> \<le> round_half_even z" by (rule round_half_even_lower)
  finally show ?thesis .
qed

lemma round_double_pos:
  assumes "0 < x"
  shows "round_double x = of_int (round_half_even (x * 2 powi (- (floor_log2 x - 52)))) * 2 powi (floor_log2 x - 52)"
  using assms by (simp add: round_double_def Let_def)

lemma round_double_minus: "round_double (- x) = - round_double x"
  by (simp add: round_double_def Let_def)

lemma scaled_range:
  assumes "0 < x"
  shows "2 ^ 52 \<le> x * 2 powi (- (floor_log2 x - 52))" "x * 2 powi (- (floor_log2 x - 52)) < 2 ^ 53"
proof -
  let ?l = "floor_log2 x"
  have p: "(0::rat) < 2 powi (- (?l - 52))" by simp
  have "(2::rat) powi ?l * 2 powi (- (?l - 52)) = 2 powi (?l + (- (?l - 52)))"
    by (rule power_int_add[symmetric]) simp
  then have a: "(2::rat) powi ?l * 2 powi (- (?l - 52)) = 2 ^ 52" by simp
  have "(2::rat) powi (?l + 1) * 2 powi (- (?l - 52)) = 2 powi (?l + 1 + (- (?l - 52)))"
    by (rule power_int_add[symmetric]) simp
  then have b: "(2::rat) powi (?l + 1) * 2 powi (- (?l - 52)) = 2 ^ 53" by simp
  from floor_log2_bounds(1)[OF assms] p
  have "(2::rat) powi ?l * 2 powi (- (?l - 52)) \<le> x * 2 powi (- (?l - 52))"
    by (intro mult_right_mono) auto
  then show "2 ^ 52 \<le> x * 2 powi (- (floor_log2 x - 52))" unfolding a .
  from floor_log2_bounds(2)[OF assms] p
  have "x * 2 powi (- (?l - 52)) < (2::rat) powi (?l + 1) * 2 powi (- (?l - 52))"
    by (intro mult_strict_right_mono) auto
  then show "x * 2 powi (- (floor_log2 x - 52)) < 2 ^ 53" unfolding b .
qed

lemma significand_range:
  assumes "0 < x"
  shows "2 ^ 52 \<le> round_half_even (x * 2 powi (- (floor_log2 x - 52)))" "round_half_even (x * 2 powi (- (floor_log2 x - 52))) \<le> 2 ^ 53"
proof -
  let ?s = "x * 2 powi (- (floor_log2 x - 52))"
  have "round_half_even (of_int (2 ^ 52)) \<le> round_half_even ?s"
    using scaled_range(1)[OF assms] by (intro round_half_even_mono) simp
  then show "2 ^ 52 \<le> round_half_even ?s" by (simp only: round_half_even_of_int)
  have "round_half_even ?s \<le> round_half_even (of_int (2 ^ 53))"
    using scaled_range(2)[OF assms] by (intro round_half_even_mono) simp
  then show "round_half_even ?s \<le> 2 ^ 53" by (simp only: round_half_even_of_int)
qed

lemma round_double_pos_bounds:
  assumes "0 < x"
  shows "2 powi (floor_log2 x) \<le> round_double x" "round_double x \<le> 2 powi (floor_log2 x + 1)"
proof -
  let ?e = "floor_log2 x - 52"
  let ?m = "round_half_even (x * 2 powi (- ?e))"
  have p: "(0::rat) < 2 powi ?e" by simp
  have "(2::rat) ^ 52 * 2 powi ?e = 2 powi 52 * 2 powi ?e" by simp
  also have "\<dots> = 2 powi (floor_log2 x)" by (rule two_powi_add) simp
  finally have a: "(2::rat) ^ 52 * 2 powi ?e = 2 powi (floor_log2 x)" .
  have "(2::rat) ^ 53 * 2 powi ?e = 2 powi 53 * 2 powi ?e" by simp
  also have "\<dots> = 2 powi (floor_log2 x + 1)" by (rule two_powi_add) simp
  finally have b: "(2::rat) ^ 53 * 2 powi ?e = 2 powi (floor_log2 x + 1)" .
  have "(of_int (2 ^ 52) :: rat) \<le> of_int ?m"
    using significand_range(1)[OF assms] by (simp only: of_int_le_iff)
  then have "(2::rat) ^ 52 * 2 powi ?e \<le> of_int ?m * 2 powi ?e"
    using p by (intro mult_right_mono) auto
  then show "2 powi (floor_log2 x) \<le> round_double x" unfolding a round_double_pos[OF assms] .
  have "(of_int ?m :: rat) \<le> of_int (2 ^ 53)"
    using significand_range(2)[OF assms] by (simp only: of_int_le_iff)
  then have "of_int ?m * 2 powi ?e \<le> (2::rat) ^ 53 * 2 powi ?e"
    using p by (intro mult_right_mono) auto
  then show "round_double x \<le> 2 powi (floor_log2 x + 1)" unfolding b round_double_pos[OF assms] .
qed

lemma round_double_pos_gt0: "0 < x \<Longrightarrow> 0 < round_double x"
  using round_double_pos_bounds(1)[of x] zero_less_power_int[of "2::rat" "floor_log2 x"] by linarith

lemma floor_log2_mono:
  assumes "0 < x" "x \<le> y"
  shows "floor_log2 x \<le> floor_log2 y"
proof (rule ccontr)
  assume "\<not> floor_log2 x \<le> floor_log2 y"
  then have "(2::rat) powi (floor_log2 y + 1) \<le> 2 powi (floor_log2 x)"
    by (intro power_int_increasing) auto
  moreover have "0 < y" using assms by simp
  ultimately show False
    using floor_log2_bounds(1)[OF assms(1)] floor_log2_bounds(2)[of y] assms(2) by linarith
qed

lemma round_double_mono_pos:
  assumes "0 < x" "x \<le> y"
  shows "round_double x \<le> round_double y"
proof -
  have y: "0 < y" using assms by simp
  show ?thesis
  proof (cases "floor_log2 x = floor_log2 y")
    case True
    let ?e = "floor_log2 y - 52"
    have "x * 2 powi (- ?e) \<le> y * 2 powi (- ?e)"
      using assms(2) by (intro mult_right_mono) auto
    then have "round_half_even (x * 2 powi (- ?e)) \<le> round_half_even (y * 2 powi (- ?e))" by (rule round_half_even_mono)
    then have "(of_int (round_half_even (x * 2 powi (- ?e))) :: rat) \<le> of_int (round_half_even (y * 2 powi (- ?e)))"
      by (simp only: of_int_le_iff)
    then have "of_int (round_half_even (x * 2 powi (- ?e))) * 2 powi ?e \<le> of_int (round_half_even (y * 2 powi (- ?e))) * (2::rat) powi ?e"
      by (intro mult_right_mono) auto
    then show ?thesis by (simp only: round_double_pos[OF assms(1)] round_double_pos[OF y] True)
  next
    case False
    with floor_log2_mono[OF assms] have "floor_log2 x + 1 \<le> floor_log2 y" by linarith
    then have "(2::rat) powi (floor_log2 x + 1) \<le> 2 powi (floor_log2 y)"
      by (intro power_int_increasing) auto
    with round_double_pos_bounds(2)[OF assms(1)] round_double_pos_bounds(1)[OF y] show ?thesis by linarith
  qed
qed

lemma round_double_zero: "round_double 0 = 0"
  by (simp add: round_double_def)

lemma round_double_mono:
  assumes "x \<le> y"
  shows "round_double x \<le> round_double y"
proof -
  consider "0 < x" | "x = 0" "y = 0" | "x = 0" "0 < y" | "x < 0" "0 < y" | "x < 0" "y = 0" | "x < 0" "y < 0"
    using assms by linarith
  then show ?thesis
  proof cases
    case 1 then show ?thesis using assms by (rule round_double_mono_pos)
  next
    case 2 then show ?thesis by simp
  next
    case 3 then show ?thesis using round_double_pos_gt0[of y] by (simp add: round_double_zero)
  next
    case 4
    then have "0 < round_double (- x)" "0 < round_double y" by (simp_all add: round_double_pos_gt0)
    then show ?thesis by (simp add: round_double_minus)
  next
    case 5
    then have "0 < round_double (- x)" by (simp add: round_double_pos_gt0)
    with 5 show ?thesis by (simp add: round_double_minus round_double_zero)
  next
    case 6
    then have "round_double (- y) \<le> round_double (- x)" using assms by (intro round_double_mono_pos) auto
    then show ?thesis by (simp add: round_double_minus)
  qed
qed

lemma round_double_exact_pos:
  assumes "0 < x" "x * 2 powi (- (floor_log2 x - 52)) = of_int m"
  shows "round_double x = x"
proof -
  let ?e = "floor_log2 x - 52"
  have "round_double x = of_int m * 2 powi ?e"
    by (simp only: round_double_pos[OF assms(1)] assms(2) round_half_even_of_int)
  also have "\<dots> = x * (2 powi (- ?e) * 2 powi ?e)"
    by (simp only: assms(2)[symmetric] mult.assoc)
  also have "2 powi (- ?e) * (2::rat) powi ?e = 2 powi (- ?e + ?e)"
    by (rule power_int_add[symmetric]) simp
  finally show ?thesis by simp
qed

lemma round_double_dyadic_pos:
  assumes "0 < m" "m \<le> 2 ^ 53"
  shows "round_double (of_int m * 2 powi e) = of_int m * 2 powi e"
proof -
  let ?x = "of_int m * (2::rat) powi e"
  let ?l = "floor_log2 ?x"
  have x: "0 < ?x" using assms(1) by simp
  have "?x \<le> of_int (2 ^ 53) * 2 powi e"
    using assms(2) by (intro mult_right_mono) (simp_all only: of_int_le_iff zero_le_power_int zero_le_numeral)
  also have "\<dots> = 2 powi 53 * 2 powi e" by simp
  also have "\<dots> = 2 powi (53 + e)" by (rule power_int_add[symmetric]) simp
  finally have ub: "?x \<le> 2 powi (53 + e)" .
  have l: "?l \<le> 53 + e"
  proof (rule ccontr)
    assume "\<not> ?l \<le> 53 + e"
    then have "(2::rat) powi (53 + e + 1) \<le> 2 powi ?l"
      by (intro power_int_increasing) auto
    moreover have "(2::rat) powi (53 + e) < 2 powi (53 + e + 1)"
      by (intro power_int_strict_increasing) auto
    ultimately show False using ub floor_log2_bounds(1)[OF x] by linarith
  qed
  have sc: "?x * 2 powi (- (?l - 52)) = of_int m * 2 powi (e - (?l - 52))"
  proof -
    have "(2::rat) powi e * 2 powi (- (?l - 52)) = 2 powi (e - (?l - 52))"
      by (rule two_powi_add) simp
    then show ?thesis by (simp only: mult.assoc)
  qed
  show ?thesis
  proof (cases "?l - 52 \<le> e")
    case True
    then have "(2::rat) powi (e - (?l - 52)) = of_int (2 ^ nat (e - (?l - 52)))"
      by (simp add: power_int_def)
    then have "?x * 2 powi (- (?l - 52)) = of_int (m * 2 ^ nat (e - (?l - 52)))"
      unfolding sc by simp
    then show ?thesis by (rule round_double_exact_pos[OF x])
  next
    case False
    with l have le: "?l = 53 + e" by linarith
    have "2 powi (53 + e) \<le> ?x" using floor_log2_bounds(1)[OF x] le by simp
    with ub have xe: "?x = 2 powi (53 + e)" by linarith
    have "?x * 2 powi (- (?l - 52)) = 2 powi (53 + e) * 2 powi (- (?l - 52))"
      by (simp only: xe)
    also have "\<dots> = 2 powi (53 + e + (- (?l - 52)))" by (rule power_int_add[symmetric]) simp
    also have "\<dots> = of_int (2 ^ 52)" by (simp add: le)
    finally show ?thesis by (rule round_double_exact_pos[OF x])
  qed
qed

lemma round_double_idem: "round_double (round_double x) = round_double x"
proof -
  have pos: "round_double (round_double y) = round_double y" if "0 < y" for y
  proof -
    let ?m = "round_half_even (y * 2 powi (- (floor_log2 y - 52)))"
    have "0 < ?m" "?m \<le> 2 ^ 53"
      using significand_range[OF that] by simp_all
    then show ?thesis unfolding round_double_pos[OF that] by (rule round_double_dyadic_pos)
  qed
  consider "0 < x" | "x = 0" | "x < 0" by linarith
  then show ?thesis
  proof cases
    case 1 then show ?thesis by (rule pos)
  next
    case 2 then show ?thesis by (simp add: round_double_zero)
  next
    case 3
    then have "round_double (round_double (- x)) = round_double (- x)" by (intro pos) simp
    then show ?thesis by (simp add: round_double_minus)
  qed
qed

lemma round_double_of_int:
  assumes "\<bar>i\<bar> \<le> 2 ^ 53"
  shows "round_double (of_int i) = of_int i"
proof -
  have pos: "round_double (of_int j) = of_int j" if "0 < j" "j \<le> 2 ^ 53" for j :: int
    using round_double_dyadic_pos[OF that, of 0] by simp
  consider "0 < i" | "i = 0" | "i < 0" by linarith
  then show ?thesis
  proof cases
    case 1 with assms show ?thesis by (intro pos) auto
  next
    case 2 then show ?thesis by (simp add: round_double_zero)
  next
    case 3
    with assms have "round_double (of_int (- i)) = of_int (- i)" by (intro pos) auto
    then show ?thesis by (simp add: round_double_minus)
  qed
qed

section \<open>Well-formed numbers and token counts\<close>

lemma round_double_nonneg: "0 \<le> x \<Longrightarrow> 0 \<le> round_double x"
  using round_double_mono[of 0 x] by (simp add: round_double_zero)

lemma round_double_ge_int:
  assumes "of_int i \<le> x" "\<bar>i\<bar> \<le> 2 ^ 53"
  shows "of_int i \<le> round_double x"
  using round_double_mono[OF assms(1)] round_double_of_int[OF assms(2)] by simp

lemma round_double_le_int:
  assumes "x \<le> of_int i" "\<bar>i\<bar> \<le> 2 ^ 53"
  shows "round_double x \<le> of_int i"
  using round_double_mono[OF assms(1)] round_double_of_int[OF assms(2)] by simp

lemma to_float_nonneg: "0 \<le> py_val a \<Longrightarrow> 0 \<le> to_float a"
  by (cases a) (simp_all add: round_double_nonneg)

lemma to_float_wf: "wf_num a \<Longrightarrow> round_double (to_float a) = to_float a"
  by (cases a) (simp_all add: round_double_idem)

lemma wf_py_add: "wf_num (py_add a b)"
  by (cases a; cases b) (simp_all add: round_double_idem)

lemma wf_py_sub: "wf_num (py_sub a b)"
  by (cases a; cases b) (simp_all add: round_double_idem)

lemma wf_py_mul: "wf_num (py_mul a b)"
  by (cases a; cases b) (simp_all add: round_double_idem)

lemma fallback_count_eq:
  "fallback_count text = PyFloat (round_double (round_double (of_nat (length (str_split text))) * round_double (13/10)))"
  by (simp add: fallback_count_def)

lemma fallback_count_nonneg: "0 \<le> py_val (fallback_count text)"
proof -
  have "0 \<le> round_double (of_nat (length (str_split text)))" by (intro round_double_nonneg) simp
  moreover have "0 \<le> round_double (13/10)" by (intro round_double_nonneg) simp
  ultimately show ?thesis by (simp add: fallback_count_eq round_double_nonneg)
qed

lemma wf_count_tokens: "wf_num (count_tokens enc text)"
  by (simp add: count_tokens_def fallback_count_def round_double_idem split: option.splits)

lemma count_tokens_nonneg: "0 \<le> py_val (count_tokens enc text)"
  by (simp add: count_tokens_def fallback_count_nonneg split: option.splits)

lemma available_upper: "py_val (available_tokens enc sp) \<le> 9400"
proof (cases "count_tokens enc sp")
  case (PyInt n)
  with count_tokens_nonneg[of enc sp] show ?thesis
    by (simp add: available_tokens_def MAX_TOTAL_TOKENS_def MAX_TOKENS_CHAT_def)
next
  case (PyFloat r)
  with count_tokens_nonneg[of enc sp] have r: "0 \<le> r" by simp
  have a: "round_double 9500 = 9500" "round_double 100 = 100"
    using round_double_of_int[of 9500] round_double_of_int[of 100] by simp_all
  have "round_double (9500 - r) \<le> of_int 9500"
    using r by (intro round_double_le_int) simp_all
  then have "round_double (round_double (9500 - r) - 100) \<le> of_int 9400"
    by (intro round_double_le_int) simp_all
  then show ?thesis
    by (simp add: PyFloat available_tokens_def MAX_TOTAL_TOKENS_def MAX_TOKENS_CHAT_def a)
qed

lemma wf_available: "wf_num (available_tokens enc sp)"
  by (simp add: available_tokens_def wf_py_sub)

lemma py_val_representable:
  assumes "wf_num a" "\<bar>py_val a\<bar> \<le> 2 ^ 53"
  shows "round_double (py_val a) = py_val a"
proof (cases a)
  case (PyInt i)
  with assms(2) have "\<bar>i\<bar> \<le> 2 ^ 53"
    by (metis of_int_abs of_int_le_iff of_int_numeral of_int_power py_val.simps(1))
  then show ?thesis using PyInt by (simp add: round_double_of_int)
next
  case (PyFloat r)
  with assms(1) show ?thesis by simp
qed

lemma exceed_persists:
  assumes a: "round_double a = a" "a < 2 ^ 53" "0 \<le> a"
    and S: "wf_num S" "a < py_val S"
    and c: "0 \<le> py_val c"
  shows "a < py_val (py_add S c)"
proof -
  have s: "a < to_float S"
  proof (cases S)
    case (PyInt i)
    show ?thesis
    proof (cases "\<bar>i\<bar> \<le> 2 ^ 53")
      case True
      then show ?thesis using S(2) PyInt by (simp add: round_double_of_int)
    next
      case False
      have "0 \<le> i" using S(2) a(3) PyInt by simp
      with False have "(2::int) ^ 53 \<le> i" by simp
      then have "(of_int (2 ^ 53) :: rat) \<le> of_int i" by (simp only: of_int_le_iff)
      then have "of_int (2 ^ 53) \<le> round_double (of_int i)"
        by (intro round_double_ge_int) simp_all
      with a(2) show ?thesis using PyInt by simp
    qed
  next
    case (PyFloat r)
    with S(2) show ?thesis by simp
  qed
  have fl: "a < round_double (to_float S + to_float c)"
  proof -
    have "round_double (to_float S) \<le> round_double (to_float S + to_float c)"
      using to_float_nonneg[OF c] by (intro round_double_mono) simp
    with s to_float_wf[OF S(1)] show ?thesis by simp
  qed
  show ?thesis
  proof (cases S)
    case Si: (PyInt i)
    show ?thesis
    proof (cases c)
      case (PyInt j)
      with Si S(2) c show ?thesis by simp
    next
      case (PyFloat r)
      with Si fl show ?thesis by simp
    qed
  next
    case (PyFloat r)
    with fl show ?thesis by (cases c) simp_all
  qed
qed

lemma exceed_foldl:
  assumes a: "round_double a = a" "a < 2 ^ 53" "0 \<le> a"
    and c: "\<forall>c \<in> set cs. 0 \<le> py_val c"
  shows "wf_num S \<Longrightarrow> a < py_val S \<Longrightarrow> a < py_val (foldl py_add S cs)"
  using c
proof (induction cs arbitrary: S)
  case Nil
  then show ?case by simp
next
  case (Cons c cs)
  have "a < py_val (py_add S c)"
    using a Cons.prems by (intro exceed_persists) simp_all
  then show ?case using Cons.IH[of "py_add S c"] Cons.prems by (simp add: wf_py_add)
qed

lemma fit_loop_keeps_all:
  assumes a: "round_double (py_val A) = py_val A" "py_val A < 2 ^ 53" "0 \<le> py_val A"
  shows "wf_num tot \<Longrightarrow>
         \<not> py_less A (foldl py_add tot (map (\<lambda>m. count_tokens enc (content m)) xs)) \<Longrightarrow>
         fit_loop enc A tot kept xs = kept @ xs"
proof (induction xs arbitrary: tot kept)
  case Nil
  then show ?case by simp
next
  case (Cons m xs)
  let ?c = "count_tokens enc (content m)"
  let ?cs = "map (\<lambda>m. count_tokens enc (content m)) xs"
  have fits: "\<not> py_less A (py_add tot ?c)"
  proof
    assume "py_less A (py_add tot ?c)"
    then have "py_val A < py_val (py_add tot ?c)" by (simp add: py_less_def)
    then have "py_val A < py_val (foldl py_add (py_add tot ?c) ?cs)"
      using a by (intro exceed_foldl) (auto simp: wf_py_add count_tokens_nonneg)
    with Cons.prems(2) show False by (simp add: py_less_def)
  qed
  have "fit_loop enc A (py_add tot ?c) (kept @ [m]) xs = (kept @ [m]) @ xs"
    using Cons.prems(2) by (intro Cons.IH) (simp_all add: wf_py_add)
  with fits show ?case by (simp add: Let_def)
qed

section \<open>Word counts of the test sentences\<close>

lemma split_from_words:
  "split_from [] (concat (replicate n ''a '') @ rest) = replicate n ''a'' @ split_from [] rest"
  by (induction n) (simp_all add: is_space_def)

lemma length_sentence: "length (sentence n) = 2 * n + 1"
  by (simp add: sentence_def length_concat sum_list_replicate)

section \<open>The trimming loop\<close>

lemma available_representable:
  assumes "\<not> py_less (available_tokens enc sp) (PyInt 500)"
  shows "round_double (py_val (available_tokens enc sp)) = py_val (available_tokens enc sp)"
proof -
  have "500 \<le> py_val (available_tokens enc sp)" using assms by (simp add: py_less_def)
  with available_upper[of enc sp] have "\<bar>py_val (available_tokens enc sp)\<bar> \<le> 2 ^ 53" by simp
  then show ?thesis by (intro py_val_representable wf_available)
qed

lemma max_chars_lower:
  assumes "\<not> py_less (available_tokens enc sp) (PyInt 500)"
  shows "1750 \<le> max_chars_of enc sp"
proof -
  let ?A = "available_tokens enc sp"
  have lo: "500 \<le> py_val ?A" using assms by (simp add: py_less_def)
  have f: "of_int 500 \<le> to_float ?A"
  proof (cases ?A)
    case (PyInt i)
    with lo have "(of_int 500 :: rat) \<le> of_int i" by simp
    then have "of_int 500 \<le> round_double (of_int i)" by (intro round_double_ge_int) simp_all
    then show ?thesis using PyInt by simp
  next
    case (PyFloat r)
    with lo show ?thesis by simp
  qed
  then have "of_int 1750 \<le> to_float ?A * (7/2)" by simp
  then have r: "of_int 1750 \<le> round_double (to_float ?A * (7/2))"
    by (intro round_double_ge_int) simp_all
  then have "1750 \<le> \<lfloor>round_double (to_float ?A * (7/2))\<rfloor>" by (simp add: le_floor_iff)
  moreover have "py_mul ?A (PyFloat (7/2)) = PyFloat (round_double (to_float ?A * (7/2)))"
    by (cases ?A) simp_all
  ultimately show ?thesis using r by (simp add: max_chars_of_def)
qed

lemma fit_loop_extends: "\<exists>ys. fit_loop enc A tot kept xs = kept @ ys"
proof (induction xs arbitrary: tot kept)
  case Nil
  then show ?case by simp
next
  case (Cons m xs)
  let ?m' = "m\<lparr>content := take (nat (py_int (py_mul A (PyFloat (7/2))))) (content m) @ ''...''\<rparr>"
  obtain ys1 where 1: "fit_loop enc A (py_add tot (count_tokens enc (content m))) (kept @ [m]) xs = (kept @ [m]) @ ys1"
    using Cons.IH by blast
  obtain ys2 where 2: "fit_loop enc A (py_add tot (count_tokens enc (content ?m'))) (kept @ [?m']) xs = (kept @ [?m']) @ ys2"
    using Cons.IH by blast
  show ?case using 1 2 by (simp add: Let_def del: py_mul.simps py_int.simps)
qed

lemma fit_loop_first:
  assumes "50 < py_int (py_mul A (PyFloat (7/2)))"
  shows "\<exists>ys. fit_loop enc A tot kept (m # xs) = kept @ [m] @ ys \<or>
              fit_loop enc A tot kept (m # xs) =
                kept @ [m\<lparr>content := take (nat (py_int (py_mul A (PyFloat (7/2))))) (content m) @ ''...''\<rparr>] @ ys"
proof -
  let ?m' = "m\<lparr>content := take (nat (py_int (py_mul A (PyFloat (7/2))))) (content m) @ ''...''\<rparr>"
  obtain ys1 where 1: "fit_loop enc A (py_add tot (count_tokens enc (content m))) (kept @ [m]) xs = (kept @ [m]) @ ys1"
    using fit_loop_extends by blast
  obtain ys2 where 2: "fit_loop enc A (py_add tot (count_tokens enc (content ?m'))) (kept @ [?m']) xs = (kept @ [?m']) @ ys2"
    using fit_loop_extends by blast
  show ?thesis using assms 1 2 by (auto simp add: Let_def simp del: py_mul.simps py_int.simps)
qed

section \<open>The trimming function on the test sentence\<close>

lemma split_sentence_suffix:
  "\<forall>c \<in> set s. \<not> is_space c \<Longrightarrow> str_split (sentence n @ s) = replicate n ''a'' @ [''a'' @ s]"
proof -
  assume a: "\<forall>c \<in> set s. \<not> is_space c"
  have "split_from cur s = [cur @ s]" if "cur \<noteq> []" for cur
    using a that by (induction s arbitrary: cur) auto
  then show ?thesis
    by (simp add: str_split_def sentence_def split_from_words is_space_def)
qed

lemma words_sentence: "length (str_split (sentence n)) = Suc n"
  using split_sentence_suffix[of "[]" n] by simp

lemma words_sentence_dots: "length (str_split (sentence n @ ''...'')) = Suc n"
  using split_sentence_suffix[of "''...''" n] by (simp add: is_space_def)

lemma words_sentence_dots2: "length (str_split (sentence n @ ''......'')) = Suc n"
  using split_sentence_suffix[of "''......''" n] by (simp add: is_space_def)

lemma avail_empty: "available_tokens None [] = PyFloat 9400"
  by code_simp

lemma cost_7231: "py_mul (PyInt 7231) (PyFloat (round_double (13/10))) = PyFloat (5167869577291367 / 549755813888)"
  by code_simp

lemma add_7231: "py_add (PyInt 0) (PyFloat (5167869577291367 / 549755813888)) = PyFloat (5167869577291367 / 549755813888)"
  by code_simp

lemma max_chars_9400: "py_int (py_mul (PyFloat 9400) (PyFloat (7/2))) = 32900"
  by code_simp

lemma count_sentence: "count_tokens None (sentence 7230) = PyFloat (5167869577291367 / 549755813888)"
  by (simp add: count_tokens_def fallback_count_def words_sentence cost_7231 del: py_mul.simps)

lemma count_sentence_dots: "count_tokens None (sentence 7230 @ ''...'') = PyFloat (5167869577291367 / 549755813888)"
  by (simp add: count_tokens_def fallback_count_def words_sentence_dots cost_7231 del: py_mul.simps)

lemma count_sentence_dots2: "count_tokens None (sentence 7230 @ ''......'') = PyFloat (5167869577291367 / 549755813888)"
  by (simp add: count_tokens_def fallback_count_def words_sentence_dots2 cost_7231 del: py_mul.simps)

lemma fit_sentence:
  "fit_to_token_limit None [\<lparr>role = ''user'', content = sentence 7230\<rparr>] [] =
     Inr [\<lparr>role = ''user'', content = sentence 7230 @ ''...''\<rparr>]"
  by (simp add: fit_to_token_limit_def avail_empty py_less_def Let_def count_sentence count_sentence_dots
      add_7231 max_chars_9400 length_sentence del: py_mul.simps py_add.simps py_int.simps)

lemma fit_sentence_dots:
  "fit_to_token_limit None [\<lparr>role = ''user'', content = sentence 7230 @ ''...''\<rparr>] [] =
     Inr [\<lparr>role = ''user'', content = sentence 7230 @ ''......''\<rparr>]"
  by (simp add: fit_to_token_limit_def avail_empty py_less_def Let_def count_sentence_dots count_sentence_dots2
      add_7231 max_chars_9400 length_sentence del: py_mul.simps py_add.simps py_int.simps)

lemma split_from_letters:
  "split_from cur (replicate n CHR ''a'' @ rest) = split_from (cur @ replicate n CHR ''a'') rest"
proof (induction n arbitrary: cur)
  case 0
  then show ?case by simp
next
  case (Suc n)
  have "split_from cur (replicate (Suc n) CHR ''a'' @ rest) =
        split_from (cur @ [CHR ''a'']) (replicate n CHR ''a'' @ rest)"
    by (simp add: is_space_def)
  also have "\<dots> = split_from ((cur @ [CHR ''a'']) @ replicate n CHR ''a'') rest"
    by (rule Suc)
  also have "(cur @ [CHR ''a'']) @ replicate n CHR ''a'' = cur @ replicate (Suc n) CHR ''a''"
    by simp
  finally show ?case .
qed

lemma words_headed: "0 < n \<Longrightarrow> length (str_split (headed n k)) = k + 2"
proof -
  assume n: "0 < n"
  have "str_split (headed n k) = split_from (replicate n CHR ''a'') ('' '' @ sentence k)"
    using split_from_letters[of "[]" n "'' '' @ sentence k"] by (simp add: str_split_def headed_def)
  also have "\<dots> = replicate n CHR ''a'' # str_split (sentence k)"
    using n by (simp add: is_space_def str_split_def)
  finally show ?thesis by (simp add: words_sentence)
qed

lemma words_letters_dots: "length (str_split (replicate n CHR ''a'' @ ''...'')) = 1"
  using split_from_letters[of "[]" n "''...''"] by (simp add: str_split_def is_space_def)

lemma take_headed: "take n (headed n k) = replicate n CHR ''a''"
  by (simp add: headed_def)

lemma cost_7302: "py_mul (PyInt 7302) (PyFloat (round_double (13/10))) = PyFloat (5218612038913229 / 549755813888)"
  by code_simp

lemma cost_1: "py_mul (PyInt 1) (PyFloat (round_double (13/10))) = PyFloat (5854679515581645 / 4503599627370496)"
  by code_simp

lemma add_0_7302: "py_add (PyInt 0) (PyFloat (5218612038913229 / 549755813888)) = PyFloat (5218612038913229 / 549755813888)"
  by code_simp

lemma add_0_1: "py_add (PyInt 0) (PyFloat (5854679515581645 / 4503599627370496)) = PyFloat (5854679515581645 / 4503599627370496)"
  by code_simp

lemma add_1_7231: "py_add (PyFloat (5854679515581645 / 4503599627370496)) (PyFloat (5167869577291367 / 549755813888)) =
    PyFloat (5168584259849421 / 549755813888)"
  by code_simp

lemma count_headed: "count_tokens None (headed 32900 7300) = PyFloat (5218612038913229 / 549755813888)"
proof -
  have "length (str_split (headed 32900 7300)) = 7302" using words_headed[of 32900 7300] by simp
  then show ?thesis by (simp add: count_tokens_def fallback_count_def cost_7302 del: py_mul.simps)
qed

lemma count_letters_dots:
  "count_tokens None (replicate 32900 CHR ''a'' @ ''...'') = PyFloat (5854679515581645 / 4503599627370496)"
proof -
  have "int (length (str_split (replicate 32900 CHR ''a'' @ ''...''))) = 1"
    by (simp add: words_letters_dots)
  then show ?thesis by (simp add: count_tokens_def fallback_count_def cost_1 del: py_mul.simps)
qed

lemma fit_two_messages:
  "fit_to_token_limit None
     [\<lparr>role = ''assistant'', content = sentence 7230\<rparr>,
      \<lparr>role = ''user'', content = headed 32900 7300\<rparr>] [] =
     Inr [\<lparr>role = ''assistant'', content = sentence 7230 @ ''...''\<rparr>,
          \<lparr>role = ''user'', content = replicate 32900 CHR ''a'' @ ''...''\<rparr>]"
    by (simp add: fit_to_token_limit_def avail_empty py_less_def Let_def count_headed count_letters_dots
        count_sentence count_sentence_dots add_0_7302 add_0_1 add_1_7231 max_chars_9400 length_sentence
        take_headed del: py_mul.simps py_add.simps py_int.simps)

lemma fit_loop_shape:
  "\<exists>ys. fit_loop enc A tot kept xs = kept @ ys \<and> length ys \<le> length xs \<and>
        list_all2 (kept_as (py_int (py_mul A (PyFloat (7/2))))) ys (take (length ys) xs)"
proof (induction xs arbitrary: tot kept)
  case Nil
  then show ?case by simp
next
  case (Cons m xs)
  let ?k = "py_int (py_mul A (PyFloat (7/2)))"
  let ?m' = "m\<lparr>content := take (nat ?k) (content m) @ ''...''\<rparr>"
  have step: "\<exists>ys. kept @ [x] @ zs = kept @ ys \<and> length ys \<le> length (m # xs) \<and>
      list_all2 (kept_as ?k) ys (take (length ys) (m # xs))"
    if "kept_as ?k x m" "length zs \<le> length xs" "list_all2 (kept_as ?k) zs (take (length zs) xs)" for x zs
    using that by (intro exI[of _ "x # zs"]) simp
  have km: "kept_as ?k m m" "kept_as ?k ?m' m" by (simp_all add: kept_as_def)
  obtain ys1 where 1: "fit_loop enc A (py_add tot (count_tokens enc (content m))) (kept @ [m]) xs = (kept @ [m]) @ ys1"
    "length ys1 \<le> length xs" "list_all2 (kept_as ?k) ys1 (take (length ys1) xs)"
    using Cons.IH by blast
  obtain ys2 where 2: "fit_loop enc A (py_add tot (count_tokens enc (content ?m'))) (kept @ [?m']) xs = (kept @ [?m']) @ ys2"
    "length ys2 \<le> length xs" "list_all2 (kept_as ?k) ys2 (take (length ys2) xs)"
    using Cons.IH by blast
  have e: "\<exists>ys. kept = kept @ ys \<and> length ys \<le> length (m # xs) \<and>
      list_all2 (kept_as ?k) ys (take (length ys) (m # xs))"
    by (intro exI[of _ "[]"]) simp
  have trunc_rec: "fit_loop enc A (py_add tot (count_tokens enc (take (nat ?k) (content m) @ ''...''))) (kept @ [?m']) xs =
      (kept @ [?m']) @ ys2"
    using 2(1) by simp
  show ?case
  proof (cases "py_less A (py_add tot (count_tokens enc (content m)))")
    case over: True
    show ?thesis
    proof (cases "50 < ?k")
      case k: True
      show ?thesis
      proof (cases "py_less A (py_add tot (count_tokens enc (take (nat ?k) (content m) @ ''...'')))")
        case True
        with over k have "fit_loop enc A tot kept (m # xs) = kept @ [?m'] @ []"
          by (simp add: Let_def del: py_mul.simps py_int.simps)
        then show ?thesis using step[OF km(2), of "[]"] by simp
      next
        case False
        with over k trunc_rec have "fit_loop enc A tot kept (m # xs) = kept @ [?m'] @ ys2"
          by (simp add: Let_def del: py_mul.simps py_int.simps)
        then show ?thesis using step[OF km(2) 2(2,3)] by simp
      qed
    next
      case False
      with over have "fit_loop enc A tot kept (m # xs) = kept"
        by (simp add: Let_def del: py_mul.simps py_int.simps)
      then show ?thesis using e by simp
    qed
  next
    case False
    with 1(1) have "fit_loop enc A tot kept (m # xs) = kept @ [m] @ ys1"
      by (simp add: Let_def del: py_mul.simps py_int.simps)
    then show ?thesis using step[OF km(1) 1(2,3)] by simp
  qed
qed

lemma wf_foldl_add: "wf_num S \<Longrightarrow> wf_num (foldl py_add S cs)"
  by (induction cs arbitrary: S) (simp_all add: wf_py_add)

lemma prefix_fits:
  assumes A: "round_double (py_val A) = py_val A" "py_val A < 2 ^ 53" "0 \<le> py_val A"
    and fits: "\<not> py_less A (foldl py_add (PyInt 0) (map (\<lambda>m. count_tokens enc (content m)) kept))"
  shows "\<not> py_less A (foldl py_add (PyInt 0) (map (\<lambda>m. count_tokens enc (content m)) (butlast kept)))"
proof (cases "kept = []")
  case True
  then show ?thesis using A(3) by (simp add: py_less_def)
next
  case False
  let ?T = "\<lambda>ks. foldl py_add (PyInt 0) (map (\<lambda>m. count_tokens enc (content m)) ks)"
  have k: "kept = butlast kept @ [last kept]" using False by simp
  have t: "?T kept = py_add (?T (butlast kept)) (count_tokens enc (content (last kept)))"
    by (subst k) (simp del: append_butlast_last_id)
  show ?thesis
  proof
    assume "py_less A (?T (butlast kept))"
    then have "py_val A < py_val (?T (butlast kept))" by (simp add: py_less_def)
    then have "py_val A < py_val (py_add (?T (butlast kept)) (count_tokens enc (content (last kept))))"
      using A by (intro exceed_persists) (simp_all add: wf_foldl_add count_tokens_nonneg)
    with fits t show False by (simp add: py_less_def)
  qed
qed

lemma fit_loop_butlast_fits:
  assumes A: "round_double (py_val A) = py_val A" "py_val A < 2 ^ 53" "0 \<le> py_val A"
  shows "tot = foldl py_add (PyInt 0) (map (\<lambda>m. count_tokens enc (content m)) kept) \<Longrightarrow>
         \<not> py_less A tot \<Longrightarrow>
         \<not> py_less A (foldl py_add (PyInt 0)
              (map (\<lambda>m. count_tokens enc (content m)) (butlast (fit_loop enc A tot kept xs))))"
proof (induction xs arbitrary: tot kept)
  case Nil
  then show ?case using prefix_fits[OF A, of enc kept] by simp
next
  case (Cons m xs)
  let ?k = "py_int (py_mul A (PyFloat (7/2)))"
  let ?m' = "m\<lparr>content := take (nat ?k) (content m) @ ''...''\<rparr>"
  let ?T = "\<lambda>ks. foldl py_add (PyInt 0) (map (\<lambda>m. count_tokens enc (content m)) ks)"
  have keep: "\<not> py_less A (?T (butlast kept))"
    using prefix_fits[OF A, of enc kept] Cons.prems by simp
  have last_kept: "\<not> py_less A (?T (butlast (kept @ [x])))" for x
    using Cons.prems by simp
  have rec: "\<not> py_less A (?T (butlast (fit_loop enc A (py_add tot (count_tokens enc (content x))) (kept @ [x]) xs)))"
    if "\<not> py_less A (py_add tot (count_tokens enc (content x)))" for x
    using that Cons.prems(1) by (intro Cons.IH) simp_all
  show ?case
  proof (cases "py_less A (py_add tot (count_tokens enc (content m)))")
    case over: True
    show ?thesis
    proof (cases "50 < ?k")
      case k: True
      show ?thesis
      proof (cases "py_less A (py_add tot (count_tokens enc (take (nat ?k) (content m) @ ''...'')))")
        case True
        with over k have eq: "fit_loop enc A tot kept (m # xs) = kept @ [?m']"
          by (simp add: Let_def del: py_mul.simps py_int.simps)
        show ?thesis unfolding eq by (rule last_kept)
      next
        case False
        with over k have eq: "fit_loop enc A tot kept (m # xs) =
            fit_loop enc A (py_add tot (count_tokens enc (content ?m'))) (kept @ [?m']) xs"
          by (simp add: Let_def del: py_mul.simps py_int.simps)
        have "\<not> py_less A (py_add tot (count_tokens enc (content ?m')))" using False by simp
        then show ?thesis unfolding eq by (rule rec)
      qed
    next
      case False
      with over have eq: "fit_loop enc A tot kept (m # xs) = kept"
        by (simp add: Let_def del: py_mul.simps py_int.simps)
      show ?thesis unfolding eq by (rule keep)
    qed
  next
    case False
    then have eq: "fit_loop enc A tot kept (m # xs) =
        fit_loop enc A (py_add tot (count_tokens enc (content m))) (kept @ [m]) xs"
      by (simp add: Let_def del: py_mul.simps py_int.simps)
    show ?thesis unfolding eq using False by (rule rec)
  qed
qed

section \<open>Properties of the token counter\<close>

text \<open>
  C7. \<open>count_tokens\<close> is declared to return an \<open>int\<close>, and the fallback is meant to be
  the ceiling of 1.3 times the word count. On the fallback path the code returns the
  product itself, a float: for the one-word text \<open>hello\<close> the result is the double 1.3,
  which lies strictly between 1 and 2, so it is no integer and not the ceiling 2 of the
  claim.
\<close>

theorem count_tokens_fallback_is_fraction:
  "count_tokens None ''hello'' = PyFloat (5854679515581645 / 4503599627370496) \<and>
   1 < py_val (count_tokens None ''hello'') \<and>
   py_val (count_tokens None ''hello'') < 2 \<and>
   \<lceil>rat_of_nat (length (str_split ''hello'')) * (13 / 10)\<rceil> = 2"
  by code_simp

section \<open>Properties of context trimming\<close>

text \<open>
  C1. The claim allows one truncated message and bounds the cost of the result by
  \<open>available\<close>. With the tokenizer absent and an empty system prompt (\<open>available = 9400.0\<close>),
  take an older message of 7231 one-letter words and a newest message made of a word of
  32900 letters followed by 7301 one-letter words. The newest message overflows (9492.6
  tokens), is cut to its 32900 letters plus an ellipsis and then costs 1.3 tokens; the
  older one overflows too (1.3 + 9400.3), is rewritten with an ellipsis and kept. Both
  messages come back changed, and the result costs 9401.6 tokens, more than \<open>available\<close>.
\<close>

theorem fit_truncates_two_and_overflows:
  "fit_to_token_limit None
     [\<lparr>role = ''assistant'', content = sentence 7230\<rparr>,
      \<lparr>role = ''user'', content = headed 32900 7300\<rparr>] [] =
     Inr [\<lparr>role = ''assistant'', content = sentence 7230 @ ''...''\<rparr>,
          \<lparr>role = ''user'', content = replicate 32900 CHR ''a'' @ ''...''\<rparr>] \<and>
   sentence 7230 @ ''...'' \<noteq> sentence 7230 \<and>
   replicate 32900 CHR ''a'' @ ''...'' \<noteq> headed 32900 7300 \<and>
   available_tokens None [] = PyFloat 9400 \<and>
   total_cost None
     [\<lparr>role = ''assistant'', content = sentence 7230 @ ''...''\<rparr>,
      \<lparr>role = ''user'', content = replicate 32900 CHR ''a'' @ ''...''\<rparr>] =
     PyFloat (5168584259849421 / 549755813888) \<and>
   py_less (available_tokens None [])
     (total_cost None
        [\<lparr>role = ''assistant'', content = sentence 7230 @ ''...''\<rparr>,
         \<lparr>role = ''user'', content = replicate 32900 CHR ''a'' @ ''...''\<rparr>])"
proof -
  note 1 = fit_two_messages
  have 2: "sentence 7230 @ ''...'' \<noteq> sentence 7230" by simp
  have "length (replicate 32900 CHR ''a'' @ ''...'') \<noteq> length (headed 32900 7300)"
    by (simp add: headed_def length_sentence)
  then have 3: "replicate 32900 CHR ''a'' @ ''...'' \<noteq> headed 32900 7300" by fastforce
  have 4: "total_cost None
     [\<lparr>role = ''assistant'', content = sentence 7230 @ ''...''\<rparr>,
      \<lparr>role = ''user'', content = replicate 32900 CHR ''a'' @ ''...''\<rparr>] =
     PyFloat (5168584259849421 / 549755813888)"
    by (simp add: total_cost_def count_letters_dots count_sentence_dots add_0_1 add_1_7231
        del: py_add.simps)
  have 5: "py_less (available_tokens None [])
     (total_cost None
        [\<lparr>role = ''assistant'', content = sentence 7230 @ ''...''\<rparr>,
         \<lparr>role = ''user'', content = replicate 32900 CHR ''a'' @ ''...''\<rparr>])"
    unfolding 4 avail_empty by (simp add: py_less_def)
  from 1 2 3 avail_empty 4 5 show ?thesis by (intro conjI)
qed

text \<open>
  C1, amended. Whenever \<open>fit_to_token_limit\<close> does not raise, its result is, in
  chronological order, the newest messages of the input, as many as the result is long:
  none is dropped between two that are kept. Each of them is either unchanged or has its
  content cut to \<open>int(available * 3.5)\<close> characters with an ellipsis appended. The result
  without its oldest message costs at most \<open>available\<close>.
\<close>

theorem fit_returns_truncated_suffix:
  assumes "fit_to_token_limit enc msgs sp = Inr out"
  shows "length out \<le> length msgs \<and>
         list_all2 (kept_as (max_chars_of enc sp)) out (drop (length msgs - length out) msgs) \<and>
         \<not> py_less (available_tokens enc sp) (total_cost enc (tl out))"
proof -
  let ?A = "available_tokens enc sp"
  have ok: "\<not> py_less ?A (PyInt 500)"
    using assms by (auto simp add: fit_to_token_limit_def Let_def split: if_splits)
  then have lo: "500 \<le> py_val ?A" by (simp add: py_less_def)
  have out: "out = rev (fit_loop enc ?A (PyInt 0) [] (rev msgs))"
    using assms ok by (simp add: fit_to_token_limit_def)
  from fit_loop_shape[of enc ?A "PyInt 0" "[]" "rev msgs"]
  obtain ys where ys: "fit_loop enc ?A (PyInt 0) [] (rev msgs) = ys" "length ys \<le> length msgs"
    "list_all2 (kept_as (max_chars_of enc sp)) ys (take (length ys) (rev msgs))"
    by (auto simp add: max_chars_of_def simp del: py_mul.simps py_int.simps)
  have o: "out = rev ys" using out ys(1) by simp
  have 1: "length out \<le> length msgs" using o ys(2) by simp
  have "list_all2 (kept_as (max_chars_of enc sp)) (rev ys) (rev (take (length ys) (rev msgs)))"
    using ys(3) by (simp only: list_all2_rev)
  moreover have "rev (take (length ys) (rev msgs)) = drop (length msgs - length ys) msgs"
    by (simp add: take_rev)
  ultimately have 2: "list_all2 (kept_as (max_chars_of enc sp)) out (drop (length msgs - length out) msgs)"
    using o by simp
  have "\<not> py_less ?A (foldl py_add (PyInt 0)
              (map (\<lambda>m. count_tokens enc (content m)) (butlast (fit_loop enc ?A (PyInt 0) [] (rev msgs)))))"
    using available_representable[OF ok] available_upper[of enc sp] lo
    by (intro fit_loop_butlast_fits) (simp_all add: py_less_def)
  moreover have "rev (tl (rev r)) = butlast r" for r :: "message list"
    using butlast_rev[of "rev r"] by simp
  ultimately have 3: "\<not> py_less ?A (total_cost enc (tl out))"
    by (simp add: total_cost_def out)
  from 1 2 3 show ?thesis by (intro conjI)
qed

theorem fit_returns_truncated_suffix_witness:
  "fit_to_token_limit None [\<lparr>role = ''assistant'', content = sentence 7230\<rparr>, \<lparr>role = ''user'', content = headed 32900 7300\<rparr>] [] = Inr [\<lparr>role = ''assistant'', content = sentence 7230 @ ''...''\<rparr>, \<lparr>role = ''user'', content = replicate 32900 CHR ''a'' @ ''...''\<rparr>] \<and>
   length [\<lparr>role = ''assistant'', content = sentence 7230 @ ''...''\<rparr>, \<lparr>role = ''user'', content = replicate 32900 CHR ''a'' @ ''...''\<rparr>] \<le> length [\<lparr>role = ''assistant'', content = sentence 7230\<rparr>, \<lparr>role = ''user'', content = headed 32900 7300\<rparr>] \<and>
   list_all2 (kept_as (max_chars_of None []))
     [\<lparr>role = ''assistant'', content = sentence 7230 @ ''...''\<rparr>, \<lparr>role = ''user'', content = replicate 32900 CHR ''a'' @ ''...''\<rparr>]
     (drop (length [\<lparr>role = ''assistant'', content = sentence 7230\<rparr>, \<lparr>role = ''user'', content = headed 32900 7300\<rparr>] - length [\<lparr>role = ''assistant'', content = sentence 7230 @ ''...''\<rparr>, \<lparr>role = ''user'', content = replicate 32900 CHR ''a'' @ ''...''\<rparr>])
        [\<lparr>role = ''assistant'', content = sentence 7230\<rparr>, \<lparr>role = ''user'', content = headed 32900 7300\<rparr>]) \<and>
   \<not> py_less (available_tokens None []) (total_cost None (tl [\<lparr>role = ''assistant'', content = sentence 7230 @ ''...''\<rparr>, \<lparr>role = ''user'', content = replicate 32900 CHR ''a'' @ ''...''\<rparr>]))"
  using fit_returns_truncated_suffix[OF fit_two_messages] fit_two_messages by blast

text \<open>
  C3. The claim compares system prompt + messages + reply reserve with the total budget;
  the code also holds back a safety margin of 100 tokens. With the tokenizer absent, an
  empty system prompt and one message of 7231 one-letter words the cost is
  0 + 9400.3 + 500 tokens, which is below 10000, and yet the message is rewritten.
\<close>

theorem fit_changes_history_below_budget:
  "py_val (count_tokens None []) + py_val (total_cost None [\<lparr>role = ''user'', content = sentence 7230\<rparr>]) + of_int MAX_TOKENS_CHAT
     \<le> of_int MAX_TOTAL_TOKENS \<and>
   \<not> py_less (available_tokens None []) (PyInt 500) \<and>
   fit_to_token_limit None [\<lparr>role = ''user'', content = sentence 7230\<rparr>] [] \<noteq> Inr [\<lparr>role = ''user'', content = sentence 7230\<rparr>]"
proof -
  have "count_tokens None [] = PyFloat 0" by code_simp
  then show ?thesis
    by (simp add: fit_sentence avail_empty total_cost_def count_sentence add_7231 py_less_def
        MAX_TOKENS_CHAT_def MAX_TOTAL_TOKENS_def del: py_add.simps)
qed

text \<open>
  C3, amended. Whenever \<open>available\<close> (total budget minus reply reserve, system prompt and
  the margin of 100) reaches the threshold of 500 and the cost of the messages, added up
  newest first as the loop does, is at most \<open>available\<close>, the function returns its input:
  nothing is truncated and nothing is dropped.
\<close>

theorem fit_unchanged_within_available:
  assumes "\<not> py_less (available_tokens enc sp) (PyInt 500)"
    and "\<not> py_less (available_tokens enc sp) (total_cost enc msgs)"
  shows "fit_to_token_limit enc msgs sp = Inr msgs"
proof -
  let ?A = "available_tokens enc sp"
  have lo: "500 \<le> py_val ?A" using assms(1) by (simp add: py_less_def)
  have "fit_loop enc ?A (PyInt 0) [] (rev msgs) = [] @ rev msgs"
    using assms(2) available_representable[OF assms(1)] available_upper[of enc sp] lo
    by (intro fit_loop_keeps_all) (simp_all add: total_cost_def)
  then show ?thesis using assms(1) by (simp add: fit_to_token_limit_def)
qed

theorem fit_unchanged_within_available_witness:
  "\<not> py_less (available_tokens None []) (PyInt 500) \<and>
   \<not> py_less (available_tokens None []) (total_cost None [\<lparr>role = ''user'', content = sentence 5\<rparr>]) \<and>
   fit_to_token_limit None [\<lparr>role = ''user'', content = sentence 5\<rparr>] [] =
     Inr [\<lparr>role = ''user'', content = sentence 5\<rparr>]"
proof -
  have c: "count_tokens None (sentence 5) = PyFloat (round_double (round_double 6 * round_double (13/10)))"
    by (simp add: count_tokens_def fallback_count_def words_sentence)
  have v: "\<not> 9400 < round_double (round_double 0 + round_double (round_double 6 * round_double (13/10)))"
    by code_simp
  have h1: "\<not> py_less (available_tokens None []) (PyInt 500)"
    by (simp add: avail_empty py_less_def)
  have h2: "\<not> py_less (available_tokens None []) (total_cost None [\<lparr>role = ''user'', content = sentence 5\<rparr>])"
    by (simp add: avail_empty py_less_def total_cost_def c v)
  from fit_unchanged_within_available[OF h1 h2] h1 h2 show ?thesis by blast
qed

text \<open>
  C9. Trimming an already trimmed history should change nothing. With the tokenizer
  absent, an empty system prompt (\<open>available = 9400.0\<close>) and one message of 7231 words
  (9400.3 tokens), the first pass rewrites the message to its first 32900 characters plus
  an ellipsis (all of it, since it has 14461) and keeps it although it still costs 9400.3
  tokens. The second pass finds it over budget again and appends a second ellipsis.
\<close>

theorem fit_twice_differs:
  "fit_to_token_limit None [\<lparr>role = ''user'', content = sentence 7230\<rparr>] [] = Inr [\<lparr>role = ''user'', content = sentence 7230 @ ''...''\<rparr>] \<and>
   available_tokens None [] = PyFloat 9400 \<and>
   total_cost None [\<lparr>role = ''user'', content = sentence 7230 @ ''...''\<rparr>] = PyFloat (5167869577291367 / 549755813888) \<and>
   py_less (available_tokens None []) (total_cost None [\<lparr>role = ''user'', content = sentence 7230 @ ''...''\<rparr>]) \<and>
   fit_to_token_limit None [\<lparr>role = ''user'', content = sentence 7230 @ ''...''\<rparr>] [] = Inr [\<lparr>role = ''user'', content = sentence 7230 @ ''......''\<rparr>] \<and>
   [\<lparr>role = ''user'', content = sentence 7230 @ ''......''\<rparr>] \<noteq> [\<lparr>role = ''user'', content = sentence 7230 @ ''...''\<rparr>]"
  by (simp add: fit_sentence fit_sentence_dots avail_empty total_cost_def count_sentence_dots
      add_7231 py_less_def del: py_add.simps)

text \<open>
  C10. When \<open>fit_to_token_limit\<close> does not raise, \<open>available\<close> is at least 500, the
  character budget \<open>int(available * 3.5)\<close> is at least 1750, so the branch for a budget of
  at most 50 characters is never taken, and a non-empty history gives a non-empty result
  whose last entry is the newest message, either as it was or cut to the character budget
  with an ellipsis appended.
\<close>

theorem fit_keeps_newest:
  assumes "fit_to_token_limit enc msgs sp = Inr out"
  shows "500 \<le> py_val (available_tokens enc sp) \<and>
         1750 \<le> max_chars_of enc sp \<and>
         (msgs \<noteq> [] \<longrightarrow>
            out \<noteq> [] \<and>
            (last out = last msgs \<or>
             last out = (last msgs)\<lparr>content :=
                 take (nat (max_chars_of enc sp)) (content (last msgs)) @ ''...''\<rparr>))"
proof -
  let ?A = "available_tokens enc sp"
  have ok: "\<not> py_less ?A (PyInt 500)"
    using assms by (auto simp add: fit_to_token_limit_def Let_def split: if_splits)
  then have lo: "500 \<le> py_val ?A" by (simp add: py_less_def)
  have mc: "1750 \<le> max_chars_of enc sp" using ok by (rule max_chars_lower)
  have out: "out = rev (fit_loop enc ?A (PyInt 0) [] (rev msgs))"
    using assms ok by (simp add: fit_to_token_limit_def)
  have "out \<noteq> [] \<and>
        (last out = last msgs \<or>
         last out = (last msgs)\<lparr>content := take (nat (max_chars_of enc sp)) (content (last msgs)) @ ''...''\<rparr>)"
    if ne: "msgs \<noteq> []"
  proof -
    from ne obtain m xs where rv: "rev msgs = m # xs" by (cases "rev msgs") auto
    then have m: "m = last msgs" using ne by (metis last_rev list.sel(1) rev_rev_ident hd_rev)
    have "50 < py_int (py_mul ?A (PyFloat (7/2)))" using mc by (simp add: max_chars_of_def)
    from fit_loop_first[OF this, of enc "PyInt 0" "[]" m xs]
    show ?thesis unfolding out rv m max_chars_of_def by (auto simp del: py_mul.simps py_int.simps fit_loop.simps)
  qed
  with lo mc show ?thesis by blast
qed

theorem fit_keeps_newest_witness:
  "fit_to_token_limit None [\<lparr>role = ''user'', content = sentence 7230\<rparr>] [] = Inr [\<lparr>role = ''user'', content = sentence 7230 @ ''...''\<rparr>] \<and>
   500 \<le> py_val (available_tokens None []) \<and>
   1750 \<le> max_chars_of None [] \<and>
   [\<lparr>role = ''user'', content = sentence 7230\<rparr>] \<noteq> [] \<and>
   [\<lparr>role = ''user'', content = sentence 7230 @ ''...''\<rparr>] \<noteq> [] \<and>
   last [\<lparr>role = ''user'', content = sentence 7230 @ ''...''\<rparr>] =
     (last [\<lparr>role = ''user'', content = sentence 7230\<rparr>])\<lparr>content :=
        take (nat (max_chars_of None [])) (content (last [\<lparr>role = ''user'', content = sentence 7230\<rparr>])) @ ''...''\<rparr>"
proof -
  have m: "max_chars_of None [] = 32900"
    by (simp add: max_chars_of_def avail_empty max_chars_9400 del: py_mul.simps py_int.simps)
  from fit_keeps_newest[OF fit_sentence] show ?thesis
    by (simp add: fit_sentence m length_sentence)
qed

section \<open>Properties of turn validation\<close>

lemma same_role_adjacent_iff:
  "same_role_adjacent ms \<longleftrightarrow> (\<exists>i. Suc i < length ms \<and> role (ms ! Suc i) = role (ms ! i))"
proof (induction ms rule: same_role_adjacent.induct)
  case (1 m m' rest)
  show ?case
  proof
    assume "same_role_adjacent (m # m' # rest)"
    then consider "role m' = role m" | "same_role_adjacent (m' # rest)" by auto
    then show "\<exists>i. Suc i < length (m # m' # rest) \<and> role ((m # m' # rest) ! Suc i) = role ((m # m' # rest) ! i)"
    proof cases
      case 1
      then show ?thesis by (intro exI[of _ 0]) simp
    next
      case 2
      with "1.IH" obtain i where "Suc i < length (m' # rest)" "role ((m' # rest) ! Suc i) = role ((m' # rest) ! i)"
        by blast
      then show ?thesis by (intro exI[of _ "Suc i"]) simp
    qed
  next
    assume "\<exists>i. Suc i < length (m # m' # rest) \<and> role ((m # m' # rest) ! Suc i) = role ((m # m' # rest) ! i)"
    then obtain i where i: "Suc i < length (m # m' # rest)" "role ((m # m' # rest) ! Suc i) = role ((m # m' # rest) ! i)"
      by blast
    show "same_role_adjacent (m # m' # rest)"
    proof (cases i)
      case 0
      with i show ?thesis by simp
    next
      case (Suc j)
      with i have "Suc j < length (m' # rest)" "role ((m' # rest) ! Suc j) = role ((m' # rest) ! j)" by simp_all
      with "1.IH" show ?thesis by auto
    qed
  qed
qed simp_all

lemma strip_no_outer_space:
  assumes "strip s \<noteq> []"
  shows "\<not> is_space (hd (strip s))" "\<not> is_space (last (strip s))"
proof -
  let ?t = "dropWhile is_space (rev (dropWhile is_space s))"
  have t: "?t \<noteq> []" using assms by (simp add: strip_def)
  then have h: "\<not> is_space (hd ?t)" by (rule hd_dropWhile)
  then show "\<not> is_space (last (strip s))" using t by (simp add: strip_def last_rev)
  have d: "dropWhile is_space s \<noteq> []"
  proof
    assume e: "dropWhile is_space s = []"
    have "?t = []" unfolding e by simp
    with t show False by contradiction
  qed
  then have hd: "\<not> is_space (hd (dropWhile is_space s))" by (rule hd_dropWhile)
  have "last (rev (dropWhile is_space s)) = hd (dropWhile is_space s)" using d by (simp add: last_rev)
  moreover have "last ?t = last (rev (dropWhile is_space s))"
    using t by (metis dropWhile_eq_Nil_conv last_appendR takeWhile_dropWhile_id)
  ultimately have "hd (strip s) = hd (dropWhile is_space s)"
    using t by (simp add: strip_def hd_rev)
  with hd show "\<not> is_space (hd (strip s))" by simp
qed

text \<open>
  C4. Turn validation runs on the cleaned history, whose entries have non-empty content
  without surrounding whitespace. It checks three rules in order and the first violation
  decides: an empty list is rejected; otherwise a list with two neighbours of the same role
  is rejected; otherwise a list whose last role is not \<open>user\<close> is rejected; every other list
  (non-empty, strictly alternating, ending with \<open>user\<close>) is accepted. The three rejections
  carry three different messages, and \<open>chat\<close> returns the rejection without calling the model.
\<close>

theorem chat_turn_validation:
  "validate_turns messages =
     (if messages = [] then Inl (HTTPException 400 ''Empty history'')
      else if (\<exists>i. Suc i < length messages \<and> role (messages ! Suc i) = role (messages ! i))
        then Inl (HTTPException 400 ''Wait for patient reply'')
      else if role (last messages) \<noteq> ''user''
        then Inl (HTTPException 400 ''Therapist must speak last'')
      else Inr ()) \<and>
   (\<forall>e. validate_turns (clean_history (history request)) = Inl e \<longrightarrow>
        chat enc client request w = (Inl e, w)) \<and>
   (\<forall>m \<in> set (clean_history h).
        content m \<noteq> [] \<and> \<not> is_space (hd (content m)) \<and> \<not> is_space (last (content m))) \<and>
   distinct [''Empty history'', ''Wait for patient reply'', ''Therapist must speak last'']"
proof -
  have 1: "validate_turns messages =
     (if messages = [] then Inl (HTTPException 400 ''Empty history'')
      else if (\<exists>i. Suc i < length messages \<and> role (messages ! Suc i) = role (messages ! i))
        then Inl (HTTPException 400 ''Wait for patient reply'')
      else if role (last messages) \<noteq> ''user''
        then Inl (HTTPException 400 ''Therapist must speak last'')
      else Inr ())"
    by (simp only: validate_turns_def same_role_adjacent_iff)
  have 2: "\<forall>e. validate_turns (clean_history (history request)) = Inl e \<longrightarrow>
        chat enc client request w = (Inl e, w)"
    by (simp add: chat_def Let_def)
  have 3: "\<forall>m \<in> set (clean_history h).
        content m \<noteq> [] \<and> \<not> is_space (hd (content m)) \<and> \<not> is_space (last (content m))"
    by (auto simp add: clean_history_def strip_no_outer_space)
  have 4: "distinct [''Empty history'', ''Wait for patient reply'', ''Therapist must speak last'']"
    by simp
  from 1 2 3 4 show ?thesis by blast
qed

theorem chat_turn_validation_witness:
  "validate_turns [] = Inl (HTTPException 400 ''Empty history'') \<and>
   validate_turns [\<lparr>role = ''user'', content = ''hi''\<rparr>, \<lparr>role = ''user'', content = ''there''\<rparr>] =
     Inl (HTTPException 400 ''Wait for patient reply'') \<and>
   validate_turns [\<lparr>role = ''user'', content = ''hi''\<rparr>, \<lparr>role = ''assistant'', content = ''hey''\<rparr>] =
     Inl (HTTPException 400 ''Therapist must speak last'') \<and>
   validate_turns [\<lparr>role = ''assistant'', content = ''hi''\<rparr>, \<lparr>role = ''user'', content = ''hello''\<rparr>] = Inr () \<and>
   validate_turns (clean_history (history \<lparr>history = [\<lparr>role = ''user'', content = '' ''\<rparr>], persona_prompt = ''p''\<rparr>)) =
     Inl (HTTPException 400 ''Empty history'') \<and>
   chat None None \<lparr>history = [\<lparr>role = ''user'', content = '' ''\<rparr>], persona_prompt = ''p''\<rparr> idle_world =
     (Inl (HTTPException 400 ''Empty history''), idle_world) \<and>
   content \<lparr>role = ''user'', content = ''hi''\<rparr> \<noteq> []"
proof -
  let ?uu = "[\<lparr>role = ''user'', content = ''hi''\<rparr>, \<lparr>role = ''user'', content = ''there''\<rparr>]"
  let ?ua = "[\<lparr>role = ''user'', content = ''hi''\<rparr>, \<lparr>role = ''assistant'', content = ''hey''\<rparr>]"
  let ?au = "[\<lparr>role = ''assistant'', content = ''hi''\<rparr>, \<lparr>role = ''user'', content = ''hello''\<rparr>]"
  let ?req = "\<lparr>history = [\<lparr>role = ''user'', content = '' ''\<rparr>], persona_prompt = ''p''\<rparr>"
  have cl: "clean_history (history ?req) = []"
    by (simp add: clean_history_def strip_def is_space_def)
  have i: "(\<exists>i. Suc i < length ms \<and> role (ms ! Suc i) = role (ms ! i)) = same_role_adjacent ms" for ms
    by (simp add: same_role_adjacent_iff)
  note t = chat_turn_validation[unfolded i]
  have 1: "validate_turns [] = Inl (HTTPException 400 ''Empty history'')"
    using t[of "[]"] by simp
  have 2: "validate_turns ?uu = Inl (HTTPException 400 ''Wait for patient reply'')"
    using t[of ?uu] by simp
  have 3: "validate_turns ?ua = Inl (HTTPException 400 ''Therapist must speak last'')"
    using t[of ?ua] by simp
  have 4: "validate_turns ?au = Inr ()"
    using t[of ?au] by simp
  have 5: "validate_turns (clean_history (history ?req)) = Inl (HTTPException 400 ''Empty history'')"
    unfolding cl by (rule 1)
  have 6: "chat None None ?req idle_world = (Inl (HTTPException 400 ''Empty history''), idle_world)"
    using t[of "[]" ?req None None idle_world] 5 by blast
  from 1 2 3 4 5 6 show ?thesis by simp
qed

section \<open>Properties of model invocation\<close>

text \<open>
  C8. A call fails in one of three ways. Without a client the function raises the not-ready
  error at once and makes no call. With a client, a \<open>ClientError\<close> whose code is
  \<open>ThrottlingException\<close> becomes the rate-limit error 429, and only that does; every other
  provider error, and a response without a leading text block, becomes a status-500
  call-failure error, which is never the not-ready error.
\<close>

theorem invoke_failure_kinds:
  "invoke_bedrock_claude None w = (Inl (HTTPException 500 ''Bedrock not ready''), w) \<and>
   invoke_bedrock_claude (Some provider) w =
     (invoke_bedrock_sync (provider (calls w)), w\<lparr>calls := Suc (calls w)\<rparr>) \<and>
   invoke_bedrock_sync (ClientError ''ThrottlingException'') =
     Inl (HTTPException 429 ''Rate limit. Wait 10s.'') \<and>
   (code \<noteq> ''ThrottlingException'' \<longrightarrow>
      invoke_bedrock_sync (ClientError code) = Inl (HTTPException 500 (''Bedrock error: '' @ code))) \<and>
   invoke_bedrock_sync (OtherError e) = Inl (HTTPException 500 (''Call failed: '' @ e)) \<and>
   ((\<exists>text. invoke_bedrock_sync reply = Inr text) \<or>
    invoke_bedrock_sync reply = Inl (HTTPException 429 ''Rate limit. Wait 10s.'') \<and>
      reply = ClientError ''ThrottlingException'' \<or>
    (\<exists>d. invoke_bedrock_sync reply = Inl (HTTPException 500 d) \<and> d \<noteq> ''Bedrock not ready''))"
proof -
  have "(\<exists>text. invoke_bedrock_sync reply = Inr text) \<or>
    invoke_bedrock_sync reply = Inl (HTTPException 429 ''Rate limit. Wait 10s.'') \<and>
      reply = ClientError ''ThrottlingException'' \<or>
    (\<exists>d. invoke_bedrock_sync reply = Inl (HTTPException 500 d) \<and> d \<noteq> ''Bedrock not ready'')"
  proof (cases reply)
    case (ClientError c)
    then show ?thesis by (simp add: invoke_bedrock_sync_def)
  next
    case (OtherError x)
    then show ?thesis by (simp add: invoke_bedrock_sync_def)
  next
    case (Response blocks)
    then show ?thesis by (cases blocks) (simp_all add: invoke_bedrock_sync_def)
  qed
  then show ?thesis by (simp add: invoke_bedrock_claude_def invoke_bedrock_sync_def)
qed

theorem invoke_failure_kinds_witness:
  "invoke_bedrock_claude None idle_world = (Inl (HTTPException 500 ''Bedrock not ready''), idle_world) \<and>
   ''AccessDeniedException'' \<noteq> ''ThrottlingException'' \<and>
   invoke_bedrock_sync (ClientError ''AccessDeniedException'') =
     Inl (HTTPException 500 ''Bedrock error: AccessDeniedException'')"
  using invoke_failure_kinds[of idle_world "failing_at 0" "''AccessDeniedException''"] by simp

section \<open>Properties of sessions\<close>

lemma hexdigest_nonempty: "hexdigest h \<noteq> []"
  by (simp add: hexdigest_def)

lemma elapsed_within:
  assumes "later - now \<le> 86400"
  shows "\<not> 86400 < elapsed later now"
proof -
  have "later - now \<le> of_int 86400" using assms by simp
  then have "round_double (later - now) \<le> of_int 86400"
    by (intro round_double_le_int) simp_all
  then show ?thesis by (simp add: elapsed_def)
qed

lemma elapsed_beyond:
  assumes "86400 < elapsed later now"
  shows "now + 86400 < later"
proof (rule ccontr)
  assume "\<not> now + 86400 < later"
  then have "later - now \<le> 86400" by simp
  from elapsed_within[OF this] assms show False by contradiction
qed

lemma elapsed_exact_on_grid:
  assumes "now = of_int m1 * 2 powi (- 22)" "later = of_int m2 * 2 powi (- 22)"
    and "m1 < m2" "m2 - m1 \<le> 2 ^ 53"
  shows "elapsed later now = later - now"
proof -
  have d: "later - now = of_int (m2 - m1) * 2 powi (- 22)"
    unfolding assms(1,2) by (simp only: of_int_diff left_diff_distrib)
  have "round_double (of_int (m2 - m1) * 2 powi (- 22)) = of_int (m2 - m1) * 2 powi (- 22)"
    using assms(3,4) by (intro round_double_dyadic_pos) simp_all
  then show ?thesis by (simp only: elapsed_def d)
qed

text \<open>
  C6. With the token that \<open>create_session\<close> returns for a subject, on either backend:
  \<open>verify_session\<close> returns the subject at every clock reading at most 86400 seconds after
  creation; it returns nothing once the age of the session, as the code computes it (a
  subtraction of two doubles), exceeds 86400 seconds, and for two clock readings between
  2004 and 2038, which are multiples of \<open>2 powi (- 22)\<close> seconds, that age is the exact
  difference; and it returns nothing after \<open>logout\<close> with that token, at any clock reading.
\<close>

theorem session_round_trip:
  assumes "create_session sha s email_addr t_token urandom now = (tok, s')"
  shows "(later - now \<le> 86400 \<longrightarrow> fst (verify_session s' (Some tok) later) = Some email_addr) \<and>
         (86400 < elapsed later now \<longrightarrow> fst (verify_session s' (Some tok) later) = None) \<and>
         (\<forall>m1 m2. now = of_int m1 * 2 powi (- 22) \<and> later = of_int m2 * 2 powi (- 22) \<and>
                  m2 - m1 \<le> 2 ^ 53 \<and> 86400 < later - now \<longrightarrow>
            fst (verify_session s' (Some tok) later) = None) \<and>
         fst (verify_session (logout s' (Some tok)) (Some tok) later) = None"
proof -
  have main: "(later - now \<le> 86400 \<longrightarrow> fst (verify_session s' (Some tok) later) = Some email_addr) \<and>
         (86400 < elapsed later now \<longrightarrow> fst (verify_session s' (Some tok) later) = None) \<and>
         fst (verify_session (logout s' (Some tok)) (Some tok) later) = None"
  proof (cases "redis_client s")
  case None
  with assms have tok: "tok = hexdigest (sha email_addr t_token urandom)"
    and s': "s' = s\<lparr>active_sessions := (active_sessions s)(tok \<mapsto> \<lparr>email = email_addr, created_at = now\<rparr>)\<rparr>"
    by (auto simp add: create_session_def Let_def)
  have ne: "tok \<noteq> []" unfolding tok by (rule hexdigest_nonempty)
  have a: "later - now \<le> 86400 \<longrightarrow> fst (verify_session s' (Some tok) later) = Some email_addr"
    using None ne elapsed_within[of later now] by (simp add: verify_session_def s')
  have b: "86400 < elapsed later now \<longrightarrow> fst (verify_session s' (Some tok) later) = None"
    using None ne by (simp add: verify_session_def s')
  have c: "fst (verify_session (logout s' (Some tok)) (Some tok) later) = None"
    using None ne by (simp add: verify_session_def logout_def s')
  from a b c show ?thesis by blast
next
  case (Some r)
  with assms have tok: "tok = hexdigest (sha email_addr t_token urandom)"
    and s': "s' = s\<lparr>redis_client := Some (redis_setex r now tok 86400 (Session_json \<lparr>email = email_addr, created_at = now\<rparr>))\<rparr>"
    by (auto simp add: create_session_def Let_def)
  have ne: "tok \<noteq> []" unfolding tok by (rule hexdigest_nonempty)
  have a: "later - now \<le> 86400 \<longrightarrow> fst (verify_session s' (Some tok) later) = Some email_addr"
  proof
    assume h: "later - now \<le> 86400"
    then have "\<not> now + 86400 < later" by simp
    with ne elapsed_within[OF h] show "fst (verify_session s' (Some tok) later) = Some email_addr"
      by (simp add: verify_session_def s' redis_get_def redis_setex_def)
  qed
  have b: "86400 < elapsed later now \<longrightarrow> fst (verify_session s' (Some tok) later) = None"
  proof
    assume "86400 < elapsed later now"
    from elapsed_beyond[OF this] ne show "fst (verify_session s' (Some tok) later) = None"
      by (simp add: verify_session_def s' redis_get_def redis_setex_def)
  qed
  have c: "fst (verify_session (logout s' (Some tok)) (Some tok) later) = None"
    using ne by (simp add: verify_session_def logout_def s' redis_get_def redis_delete_def)
  from a b c show ?thesis by blast
qed
  have grid: "fst (verify_session s' (Some tok) later) = None"
    if g: "now = of_int m1 * 2 powi (- 22)" "later = of_int m2 * 2 powi (- 22)"
      "m2 - m1 \<le> 2 ^ 53" "86400 < later - now" for m1 m2
  proof -
    have "of_int m1 * (2::rat) powi (- 22) < of_int m2 * 2 powi (- 22)" using g by simp
    then have "m1 < m2" by (simp add: power_int_minus)
    from elapsed_exact_on_grid[OF g(1,2) this g(3)] g(4) have "86400 < elapsed later now"
      by (simp only:)
    with main show ?thesis by blast
  qed
  from main have a: "later - now \<le> 86400 \<longrightarrow> fst (verify_session s' (Some tok) later) = Some email_addr"
    and b: "86400 < elapsed later now \<longrightarrow> fst (verify_session s' (Some tok) later) = None"
    and c: "fst (verify_session (logout s' (Some tok)) (Some tok) later) = None"
    by blast+
  have d: "\<forall>m1 m2. now = of_int m1 * 2 powi (- 22) \<and> later = of_int m2 * 2 powi (- 22) \<and>
                  m2 - m1 \<le> 2 ^ 53 \<and> 86400 < later - now \<longrightarrow>
            fst (verify_session s' (Some tok) later) = None"
  proof (intro allI impI, elim conjE)
    fix m1 m2
    assume "now = of_int m1 * 2 powi (- 22)" "later = of_int m2 * 2 powi (- 22)"
      "m2 - m1 \<le> 2 ^ 53" "86400 < later - now"
    then show "fst (verify_session s' (Some tok) later) = None" by (rule grid)
  qed
  from a b d c show ?thesis by (intro conjI)
qed

theorem session_round_trip_witness:
  "create_session zero_hash dev_server ''a@b.com'' 1000 [] 1000 =
     (fst (create_session zero_hash dev_server ''a@b.com'' 1000 [] 1000),
      snd (create_session zero_hash dev_server ''a@b.com'' 1000 [] 1000)) \<and>
   (1000::rat) - 1000 \<le> 86400 \<and>
   fst (verify_session (snd (create_session zero_hash dev_server ''a@b.com'' 1000 [] 1000))
          (Some (fst (create_session zero_hash dev_server ''a@b.com'' 1000 [] 1000))) 1000) = Some ''a@b.com'' \<and>
   86400 < elapsed 90000 1000 \<and>
   (1000::rat) = of_int 4194304000 * 2 powi (- 22) \<and>
   (90000::rat) = of_int 377487360000 * 2 powi (- 22) \<and>
   (377487360000::int) - 4194304000 \<le> 2 ^ 53 \<and>
   (86400::rat) < 90000 - 1000 \<and>
   fst (verify_session (snd (create_session zero_hash dev_server ''a@b.com'' 1000 [] 1000))
          (Some (fst (create_session zero_hash dev_server ''a@b.com'' 1000 [] 1000))) 90000) = None \<and>
   fst (verify_session (logout (snd (create_session zero_hash dev_server ''a@b.com'' 1000 [] 1000))
                               (Some (fst (create_session zero_hash dev_server ''a@b.com'' 1000 [] 1000))))
          (Some (fst (create_session zero_hash dev_server ''a@b.com'' 1000 [] 1000))) 1000) = None"
proof -
  let ?c = "create_session zero_hash dev_server ''a@b.com'' 1000 [] 1000"
  have c: "?c = (fst ?c, snd ?c)" by simp
  have e: "86400 < elapsed 90000 1000" by code_simp
  have g1: "(1000::rat) = of_int 4194304000 * 2 powi (- 22)"
    by (simp add: power_int_minus)
  have g2: "(90000::rat) = of_int 377487360000 * 2 powi (- 22)"
    by (simp add: power_int_minus)
  have g3: "(377487360000::int) - 4194304000 \<le> 2 ^ 53" by simp
  have g4: "(86400::rat) < 90000 - 1000" by simp
  have h: "(1000::rat) - 1000 \<le> 86400" by simp
  note t1 = session_round_trip[OF c, of 1000]
  note t2 = session_round_trip[OF c, of 90000]
  from t1 h have v1: "fst (verify_session (snd ?c) (Some (fst ?c)) 1000) = Some ''a@b.com''" by blast
  from t2 e have v2: "fst (verify_session (snd ?c) (Some (fst ?c)) 90000) = None" by blast
  from t1 have v3: "fst (verify_session (logout (snd ?c) (Some (fst ?c))) (Some (fst ?c)) 1000) = None"
    by blast
  from c h v1 e g1 g2 g3 g4 v2 v3 show ?thesis by (intro conjI)
qed

section \<open>Properties of the retry loop\<close>

lemma invoke_sync_http:
  "invoke_bedrock_sync reply = Inl e \<Longrightarrow> \<exists>c d. e = HTTPException c d"
  by (auto simp add: invoke_bedrock_sync_def split: provider_reply.splits list.splits if_splits)

lemma upt3: "[0 ..< 3] = [0, 1, 2]"
  by (simp add: upt_rec)

lemma invoke_some:
  "invoke_bedrock_claude (Some p) w = (invoke_bedrock_sync (p (calls w)), w\<lparr>calls := Suc (calls w)\<rparr>)"
  by (simp add: invoke_bedrock_claude_def)

lemma retry_first_ok:
  assumes "invoke_bedrock_sync (p (calls w)) = Inr t"
  shows "retry_loop (Some p) 3 [0 ..< 3] 1 w = (Inr (Some t), w\<lparr>calls := calls w + 1\<rparr>)"
  using assms by (simp add: upt3 invoke_some)

lemma retry_first_error:
  assumes "invoke_bedrock_sync (p (calls w)) = Inl (HTTPException c d)" "c \<noteq> 429"
  shows "retry_loop (Some p) 3 [0 ..< 3] 1 w = (Inl (HTTPException c d), w\<lparr>calls := calls w + 1\<rparr>)"
  using assms by (simp add: upt3 invoke_some)

lemma retry_second_ok:
  assumes "invoke_bedrock_sync (p (calls w)) = Inl (HTTPException 429 d0)"
    "invoke_bedrock_sync (p (calls w + 1)) = Inr t"
  shows "retry_loop (Some p) 3 [0 ..< 3] 1 w = (Inr (Some t), w\<lparr>calls := calls w + 2, sleeps := sleeps w @ [1]\<rparr>)"
  using assms by (simp add: upt3 invoke_some sleep_def)

lemma retry_second_error:
  assumes "invoke_bedrock_sync (p (calls w)) = Inl (HTTPException 429 d0)"
    "invoke_bedrock_sync (p (calls w + 1)) = Inl (HTTPException c d)" "c \<noteq> 429"
  shows "retry_loop (Some p) 3 [0 ..< 3] 1 w = (Inl (HTTPException c d), w\<lparr>calls := calls w + 2, sleeps := sleeps w @ [1]\<rparr>)"
  using assms by (simp add: upt3 invoke_some sleep_def)

lemma retry_third:
  assumes "invoke_bedrock_sync (p (calls w)) = Inl (HTTPException 429 d0)"
    "invoke_bedrock_sync (p (calls w + 1)) = Inl (HTTPException 429 d1)"
  shows "retry_loop (Some p) 3 [0 ..< 3] 1 w =
    (map_sum id Some (invoke_bedrock_sync (p (calls w + 2))), w\<lparr>calls := calls w + 3, sleeps := sleeps w @ [1, 2]\<rparr>)"
proof (cases "invoke_bedrock_sync (p (calls w + 2))")
  case (Inl e)
  with invoke_sync_http[OF Inl] assms show ?thesis
    by (auto simp add: upt3 invoke_some sleep_def)
next
  case (Inr t)
  with assms show ?thesis by (simp add: upt3 invoke_some sleep_def)
qed

lemma throttled_replies:
  "n < k \<Longrightarrow> invoke_bedrock_sync (throttled_then k text n) = Inl (HTTPException 429 ''Rate limit. Wait 10s.'')"
  "\<not> n < k \<Longrightarrow> invoke_bedrock_sync (throttled_then k text n) = Inr text"
  by (simp_all add: throttled_then_def invoke_bedrock_sync_def)

lemma fallback_after_retries:
  "fallback_text ''Failed after all retries'' =
     ''Unable to generate detailed analysis at this time. Please refer to the overall evaluation above for guidance on this exchange.''"
  by code_simp

text \<open>
  C2. The claim lets a success on a later attempt decide the record. The code accepts a
  reply only when its text is non-empty: after two rate-limit errors a third attempt that
  returns the empty text ends in the fallback record.
\<close>

theorem empty_reply_yields_fallback:
  "invoke_bedrock_sync (throttled_then 2 [] 0) = Inl (HTTPException 429 ''Rate limit. Wait 10s.'') \<and>
   invoke_bedrock_sync (throttled_then 2 [] 1) = Inl (HTTPException 429 ''Rate limit. Wait 10s.'') \<and>
   invoke_bedrock_sync (throttled_then 2 [] 2) = Inr [] \<and>
   improvement (fst (analyze_utterance http_exception_str (Some (throttled_then 2 [])) ''hi'' ''hello'' idle_world)) =
     ''Unable to generate detailed analysis at this time. Please refer to the overall evaluation above for guidance on this exchange.'' \<and>
   needs_improvement (fst (analyze_utterance http_exception_str (Some (throttled_then 2 [])) ''hi'' ''hello'' idle_world)) = False"
proof -
  have "retry_loop (Some (throttled_then 2 [])) 3 [0 ..< 3] 1 idle_world =
    (map_sum id Some (invoke_bedrock_sync (throttled_then 2 [] (calls idle_world + 2))),
     idle_world\<lparr>calls := calls idle_world + 3, sleeps := sleeps idle_world @ [1, 2]\<rparr>)"
    by (rule retry_third) (simp_all add: idle_world_def throttled_replies)
  then show ?thesis
    by (simp add: analyze_utterance_def idle_world_def throttled_replies fallback_record_def
        fallback_after_retries)
qed

text \<open>
  C2, amended. For every utterance: a rate-limit error (429) on the first or second
  attempt is followed by a wait of 1 and then 2 seconds and a new attempt, three attempts
  at most; the first reply that is no rate-limit error decides. A reply with non-empty
  text gives the analysis record with that text, a reply with empty text the fallback
  record; an error other than a rate limit is not retried and gives the fallback record,
  as does any error on the third attempt and a missing client. Every error of a call is
  an \<open>HTTPException\<close>, so these cases are all there are.
\<close>

theorem retry_policy:
  "(\<forall>t. invoke_bedrock_sync (p (calls w)) = Inr t \<longrightarrow>
      analyze_utterance http_str (Some p) msg patient w =
        (if t \<noteq> [] then analysis_record msg patient t
         else fallback_record http_str msg patient (Exception ''Failed after all retries''),
         w\<lparr>calls := calls w + 1\<rparr>)) \<and>
   (\<forall>c d. invoke_bedrock_sync (p (calls w)) = Inl (HTTPException c d) \<and> c \<noteq> 429 \<longrightarrow>
      analyze_utterance http_str (Some p) msg patient w =
        (fallback_record http_str msg patient (HTTPException c d), w\<lparr>calls := calls w + 1\<rparr>)) \<and>
   (\<forall>d0 t. invoke_bedrock_sync (p (calls w)) = Inl (HTTPException 429 d0) \<and>
           invoke_bedrock_sync (p (calls w + 1)) = Inr t \<longrightarrow>
      analyze_utterance http_str (Some p) msg patient w =
        (if t \<noteq> [] then analysis_record msg patient t
         else fallback_record http_str msg patient (Exception ''Failed after all retries''),
         w\<lparr>calls := calls w + 2, sleeps := sleeps w @ [1]\<rparr>)) \<and>
   (\<forall>d0 c d. invoke_bedrock_sync (p (calls w)) = Inl (HTTPException 429 d0) \<and>
           invoke_bedrock_sync (p (calls w + 1)) = Inl (HTTPException c d) \<and> c \<noteq> 429 \<longrightarrow>
      analyze_utterance http_str (Some p) msg patient w =
        (fallback_record http_str msg patient (HTTPException c d),
         w\<lparr>calls := calls w + 2, sleeps := sleeps w @ [1]\<rparr>)) \<and>
   (\<forall>d0 d1 t. invoke_bedrock_sync (p (calls w)) = Inl (HTTPException 429 d0) \<and>
           invoke_bedrock_sync (p (calls w + 1)) = Inl (HTTPException 429 d1) \<and>
           invoke_bedrock_sync (p (calls w + 2)) = Inr t \<longrightarrow>
      analyze_utterance http_str (Some p) msg patient w =
        (if t \<noteq> [] then analysis_record msg patient t
         else fallback_record http_str msg patient (Exception ''Failed after all retries''),
         w\<lparr>calls := calls w + 3, sleeps := sleeps w @ [1, 2]\<rparr>)) \<and>
   (\<forall>d0 d1 e. invoke_bedrock_sync (p (calls w)) = Inl (HTTPException 429 d0) \<and>
           invoke_bedrock_sync (p (calls w + 1)) = Inl (HTTPException 429 d1) \<and>
           invoke_bedrock_sync (p (calls w + 2)) = Inl e \<longrightarrow>
      analyze_utterance http_str (Some p) msg patient w =
        (fallback_record http_str msg patient e,
         w\<lparr>calls := calls w + 3, sleeps := sleeps w @ [1, 2]\<rparr>)) \<and>
   (\<forall>reply e. invoke_bedrock_sync reply = Inl e \<longrightarrow> (\<exists>c d. e = HTTPException c d)) \<and>
   analyze_utterance http_str None msg patient w =
     (fallback_record http_str msg patient (HTTPException 500 ''Bedrock not ready''), w)"
proof -
  have a: "\<forall>t. invoke_bedrock_sync (p (calls w)) = Inr t \<longrightarrow>
      analyze_utterance http_str (Some p) msg patient w =
        (if t \<noteq> [] then analysis_record msg patient t
         else fallback_record http_str msg patient (Exception ''Failed after all retries''),
         w\<lparr>calls := calls w + 1\<rparr>)"
    by (simp add: analyze_utterance_def retry_first_ok)
  have b: "\<forall>c d. invoke_bedrock_sync (p (calls w)) = Inl (HTTPException c d) \<and> c \<noteq> 429 \<longrightarrow>
      analyze_utterance http_str (Some p) msg patient w =
        (fallback_record http_str msg patient (HTTPException c d), w\<lparr>calls := calls w + 1\<rparr>)"
    by (simp add: analyze_utterance_def retry_first_error)
  have c: "\<forall>d0 t. invoke_bedrock_sync (p (calls w)) = Inl (HTTPException 429 d0) \<and>
           invoke_bedrock_sync (p (calls w + 1)) = Inr t \<longrightarrow>
      analyze_utterance http_str (Some p) msg patient w =
        (if t \<noteq> [] then analysis_record msg patient t
         else fallback_record http_str msg patient (Exception ''Failed after all retries''),
         w\<lparr>calls := calls w + 2, sleeps := sleeps w @ [1]\<rparr>)"
    by (auto simp add: analyze_utterance_def retry_second_ok)
  have d: "\<forall>d0 c d. invoke_bedrock_sync (p (calls w)) = Inl (HTTPException 429 d0) \<and>
           invoke_bedrock_sync (p (calls w + 1)) = Inl (HTTPException c d) \<and> c \<noteq> 429 \<longrightarrow>
      analyze_utterance http_str (Some p) msg patient w =
        (fallback_record http_str msg patient (HTTPException c d),
         w\<lparr>calls := calls w + 2, sleeps := sleeps w @ [1]\<rparr>)"
    by (auto simp add: analyze_utterance_def retry_second_error)
  have e: "\<forall>d0 d1 t. invoke_bedrock_sync (p (calls w)) = Inl (HTTPException 429 d0) \<and>
           invoke_bedrock_sync (p (calls w + 1)) = Inl (HTTPException 429 d1) \<and>
           invoke_bedrock_sync (p (calls w + 2)) = Inr t \<longrightarrow>
      analyze_utterance http_str (Some p) msg patient w =
        (if t \<noteq> [] then analysis_record msg patient t
         else fallback_record http_str msg patient (Exception ''Failed after all retries''),
         w\<lparr>calls := calls w + 3, sleeps := sleeps w @ [1, 2]\<rparr>)"
    by (auto simp add: analyze_utterance_def retry_third)
  have f: "\<forall>d0 d1 e. invoke_bedrock_sync (p (calls w)) = Inl (HTTPException 429 d0) \<and>
           invoke_bedrock_sync (p (calls w + 1)) = Inl (HTTPException 429 d1) \<and>
           invoke_bedrock_sync (p (calls w + 2)) = Inl e \<longrightarrow>
      analyze_utterance http_str (Some p) msg patient w =
        (fallback_record http_str msg patient e,
         w\<lparr>calls := calls w + 3, sleeps := sleeps w @ [1, 2]\<rparr>)"
    by (auto simp add: analyze_utterance_def retry_third)
  have g: "\<forall>reply e. invoke_bedrock_sync reply = Inl e \<longrightarrow> (\<exists>c d. e = HTTPException c d)"
    using invoke_sync_http by blast
  have h: "analyze_utterance http_str None msg patient w =
     (fallback_record http_str msg patient (HTTPException 500 ''Bedrock not ready''), w)"
    by (simp add: analyze_utterance_def upt3 invoke_bedrock_claude_def)
  from a b c d e f g h show ?thesis by blast
qed

theorem retry_policy_witness:
  "invoke_bedrock_sync (throttled_then 2 ''STATUS: GOOD'' (calls idle_world)) = Inl (HTTPException 429 ''Rate limit. Wait 10s.'') \<and>
   invoke_bedrock_sync (throttled_then 2 ''STATUS: GOOD'' (calls idle_world + 1)) = Inl (HTTPException 429 ''Rate limit. Wait 10s.'') \<and>
   invoke_bedrock_sync (throttled_then 2 ''STATUS: GOOD'' (calls idle_world + 2)) = Inr ''STATUS: GOOD'' \<and>
   analyze_utterance http_exception_str (Some (throttled_then 2 ''STATUS: GOOD'')) ''hi'' ''hello'' idle_world =
     (analysis_record ''hi'' ''hello'' ''STATUS: GOOD'', \<lparr>calls = 3, sleeps = [1, 2]\<rparr>) \<and>
   invoke_bedrock_sync (failing_at 0 (calls idle_world)) = Inl (HTTPException 500 ''Bedrock error: ValidationException'') \<and>
   (500::nat) \<noteq> 429 \<and>
   analyze_utterance http_exception_str (Some (failing_at 0)) ''hi'' ''hello'' idle_world =
     (fallback_record http_exception_str ''hi'' ''hello'' (HTTPException 500 ''Bedrock error: ValidationException''),
      \<lparr>calls = 1, sleeps = []\<rparr>)"
proof -
  have r: "invoke_bedrock_sync (throttled_then 2 ''STATUS: GOOD'' (calls idle_world)) = Inl (HTTPException 429 ''Rate limit. Wait 10s.'')"
    "invoke_bedrock_sync (throttled_then 2 ''STATUS: GOOD'' (calls idle_world + 1)) = Inl (HTTPException 429 ''Rate limit. Wait 10s.'')"
    "invoke_bedrock_sync (throttled_then 2 ''STATUS: GOOD'' (calls idle_world + 2)) = Inr ''STATUS: GOOD''"
    by (simp_all add: idle_world_def throttled_replies)
  have f: "invoke_bedrock_sync (failing_at 0 (calls idle_world)) = Inl (HTTPException 500 ''Bedrock error: ValidationException'')"
    by (simp add: idle_world_def failing_at_def invoke_bedrock_sync_def)
  from retry_policy[of "throttled_then 2 ''STATUS: GOOD''" idle_world http_exception_str "''hi''" "''hello''"] r
  have 1: "analyze_utterance http_exception_str (Some (throttled_then 2 ''STATUS: GOOD'')) ''hi'' ''hello'' idle_world =
     (analysis_record ''hi'' ''hello'' ''STATUS: GOOD'', \<lparr>calls = 3, sleeps = [1, 2]\<rparr>)"
    by (simp add: idle_world_def)
  from retry_policy[of "failing_at 0" idle_world http_exception_str "''hi''" "''hello''"] f
  have 2: "analyze_utterance http_exception_str (Some (failing_at 0)) ''hi'' ''hello'' idle_world =
     (fallback_record http_exception_str ''hi'' ''hello'' (HTTPException 500 ''Bedrock error: ValidationException''),
      \<lparr>calls = 1, sleeps = []\<rparr>)"
    by (simp add: idle_world_def)
  from r f 1 2 show ?thesis by simp
qed

section \<open>Properties of bulk analysis\<close>

lemma well_keyed_nth:
  assumes "well_keyed h" "i < length h"
  shows "\<exists>r c. (h ! i) ''role'' = Some r \<and> (h ! i) ''content'' = Some c"
  using assms by (auto simp add: well_keyed_def list_all_length)

lemma context_parts_ok:
  assumes "well_keyed h"
  shows "set js \<subseteq> {..<length h} \<Longrightarrow> \<exists>ps. context_parts h js = Inr ps"
proof (induction js)
  case Nil
  then show ?case by simp
next
  case (Cons j js)
  then have "j < length h" by simp
  from well_keyed_nth[OF assms this] obtain r c where "(h ! j) ''role'' = Some r" "(h ! j) ''content'' = Some c"
    by blast
  moreover from Cons obtain ps where "context_parts h js = Inr ps" by auto
  ultimately show ?case by (simp add: getitem_def)
qed

lemma context_of_ok:
  assumes "well_keyed h" "i < length h"
  shows "\<exists>c. context_of h i = Inr c"
proof -
  have "set [i - 2 ..< i] \<subseteq> {..<length h}" using assms(2) by auto
  from context_parts_ok[OF assms(1) this] show ?thesis
    by (auto simp add: context_of_def)
qed

lemma patient_response_ok:
  assumes "well_keyed h" "i < length h"
  shows "patient_response_of h i = Inr (fst (snd (utterance_at h i)))"
proof (cases "i + 1 < length h")
  case True
  from well_keyed_nth[OF assms(1) True] obtain r c where "(h ! (i + 1)) ''role'' = Some r" "(h ! (i + 1)) ''content'' = Some c"
    by blast
  with True show ?thesis
    by (simp add: patient_response_of_def utterance_at_def getitem_def lookup_def)
next
  case False
  then show ?thesis by (simp add: patient_response_of_def utterance_at_def)
qed

lemma bulk_step_user:
  assumes "well_keyed h" "i < length h" "(h ! i) ''role'' = Some ''user''"
  shows "bulk_step http_str client h i imps w =
     (let (c, p, pace) = utterance_at h i;
          (rec, w') = analyze_utterance http_str client c p w
      in (Inr (imps @ [rec]), if pace then sleep (1/2) w' else w'))"
proof -
  from well_keyed_nth[OF assms(1,2)] obtain c where c: "(h ! i) ''content'' = Some c" by blast
  from context_of_ok[OF assms(1,2)] obtain ctx where ctx: "context_of h i = Inr ctx" by blast
  have pace: "(int i < int (length h) - 1) = (i + 1 < length h)" by auto
  show ?thesis
    unfolding bulk_step_def
    by (simp add: assms(3) getitem_def patient_response_ok[OF assms(1,2)] ctx c pace
        utterance_at_def lookup_def Let_def split: prod.splits)
qed

lemma bulk_step_other:
  assumes "well_keyed h" "i < length h" "(h ! i) ''role'' \<noteq> Some ''user''"
  shows "bulk_step http_str client h i imps w = (Inr imps, w)"
proof -
  from well_keyed_nth[OF assms(1,2)] obtain r where "(h ! i) ''role'' = Some r" by blast
  with assms(3) show ?thesis by (simp add: bulk_step_def getitem_def)
qed

lemma bulk_loop_refines:
  assumes "well_keyed h"
  shows "set js \<subseteq> {..<length h} \<Longrightarrow>
         bulk_loop http_str client h js imps w =
           (Inr (imps @ fst (analyze_all http_str client
                    (map (utterance_at h) (filter (\<lambda>i. (h ! i) ''role'' = Some ''user'') js)) w)),
            snd (analyze_all http_str client
                    (map (utterance_at h) (filter (\<lambda>i. (h ! i) ''role'' = Some ''user'') js)) w))"
proof (induction js arbitrary: imps w)
  case Nil
  then show ?case by simp
next
  case (Cons i js)
  then have i: "i < length h" and js: "set js \<subseteq> {..<length h}" by simp_all
  show ?case
  proof (cases "(h ! i) ''role'' = Some ''user''")
    case True
    obtain c p pace where u: "utterance_at h i = (c, p, pace)" by (cases "utterance_at h i")
    obtain rec w' where a: "analyze_utterance http_str client c p w = (rec, w')"
      by (cases "analyze_utterance http_str client c p w")
    show ?thesis
      using True Cons.IH[OF js, of "imps @ [rec]" "if pace then sleep (1/2) w' else w'"]
      by (simp add: bulk_step_user[OF assms i True] u a split: prod.splits)
  next
    case False
    then show ?thesis
      using Cons.IH[OF js, of imps w] by (simp add: bulk_step_other[OF assms i False])
  qed
qed

lemma length_analyze_all: "length (fst (analyze_all http_str client us w)) = length us"
proof (induction us arbitrary: w)
  case Nil
  then show ?case by simp
next
  case (Cons u us)
  obtain c p pace where u: "u = (c, p, pace)" by (cases u)
  show ?case using Cons.IH by (simp add: u case_prod_beta Let_def)
qed

lemma analyze_utterance_message:
  "therapist_message (fst (analyze_utterance http_str client c p w)) = c"
  by (auto simp add: analyze_utterance_def analysis_record_def fallback_record_def
      split: prod.splits sum.splits option.splits)

lemma messages_analyze_all:
  "map therapist_message (fst (analyze_all http_str client us w)) = map fst us"
proof (induction us arbitrary: w)
  case Nil
  then show ?case by simp
next
  case (Cons u us)
  obtain c p pace where u: "u = (c, p, pace)" by (cases u)
  obtain rec w' where a: "analyze_utterance http_str client c p w = (rec, w')"
    by (cases "analyze_utterance http_str client c p w")
  have "therapist_message rec = c" using analyze_utterance_message[of http_str client c p w] a by simp
  then show ?case using Cons.IH by (simp add: u a case_prod_beta)
qed

lemma filter_nth_upt:
  "map (\<lambda>i. f (h ! i)) (filter (\<lambda>i. P (h ! i)) [0 ..< length h]) = map f (filter P h)"
proof -
  have "map (\<lambda>i. f (h ! i)) (filter (\<lambda>i. P (h ! i)) [0 ..< length h]) =
        map f (filter P (map (\<lambda>i. h ! i) [0 ..< length h]))"
    by (simp add: filter_map comp_def)
  then show ?thesis by (simp add: map_nth)
qed

lemma utterances_messages:
  "map fst (utterances h) = map (\<lambda>m. lookup m ''content'') (filter (\<lambda>m. m ''role'' = Some ''user'') h)"
  using filter_nth_upt[of "\<lambda>m. lookup m ''content''" h "\<lambda>m. m ''role'' = Some ''user''"]
  by (simp add: utterances_def utterance_at_def comp_def)

lemma length_utterances:
  "length (utterances h) = length (filter (\<lambda>m. m ''role'' = Some ''user'') h)"
  using arg_cong[OF utterances_messages[of h], of length] by simp

text \<open>
  C5. The claim speaks of every chat history. An entry is a dictionary, and the loop reads
  its \<open>role\<close> and \<open>content\<close> outside the \<open>try\<close> block or inside its handler: a therapist
  entry without \<open>content\<close> ends the whole request with a \<open>KeyError\<close>.
\<close>

theorem missing_key_aborts_bulk_analysis:
  "invoke_bedrock_claude (Some (failing_at 5)) idle_world =
     (Inr ''STATUS: GOOD'', \<lparr>calls = 1, sleeps = []\<rparr>) \<and>
   fst (generate_report http_exception_str (Some (failing_at 5))
          \<lparr>transcript = ''t'', chat_history = Some [[''role'' \<mapsto> ''user'']]\<rparr> idle_world) =
     Inl (KeyError ''content'')"
  by (simp add: generate_report_def invoke_bedrock_claude_def invoke_bedrock_sync_def failing_at_def
      idle_world_def bulk_step_def getitem_def patient_response_of_def context_of_def)

text \<open>
  C5, amended. For every chat history whose entries all have the keys \<open>role\<close> and
  \<open>content\<close>, bulk analysis does not fail: it returns the records of the therapist
  utterances analysed one after the other, one record per entry with role \<open>user\<close>, in
  order, each carrying that entry's content. An utterance whose retry loop ends in an
  error gets the fallback record, with the fallback text for that error and
  \<open>needs_improvement\<close> false, and the utterances after it are analysed all the same. When the
  main report call succeeds, \<open>generate_report\<close> returns exactly these records.
\<close>

theorem bulk_analysis_isolates_failures:
  assumes "well_keyed h"
  shows "fst (bulk_loop http_str client h [0 ..< length h] [] w) =
           Inr (fst (analyze_all http_str client (utterances h) w)) \<and>
         length (fst (analyze_all http_str client (utterances h) w)) =
           length (filter (\<lambda>m. m ''role'' = Some ''user'') h) \<and>
         map therapist_message (fst (analyze_all http_str client (utterances h) w)) =
           map (\<lambda>m. lookup m ''content'') (filter (\<lambda>m. m ''role'' = Some ''user'') h) \<and>
         (\<forall>c p w0 e. fst (retry_loop client 3 [0 ..< 3] 1 w0) = Inl e \<longrightarrow>
            fst (analyze_utterance http_str client c p w0) = fallback_record http_str c p e \<and>
            improvement (fallback_record http_str c p e) = fallback_text (exc_str http_str e) \<and>
            \<not> needs_improvement (fallback_record http_str c p e)) \<and>
         (\<forall>main w1. invoke_bedrock_claude client w = (Inr main, w1) \<longrightarrow>
            fst (generate_report http_str client \<lparr>transcript = t, chat_history = Some h\<rparr> w) =
              Inr \<lparr>report = main, improvements = fst (analyze_all http_str client (utterances h) w1)\<rparr>)"
proof -
  have sub: "set [0 ..< length h] \<subseteq> {..<length h}" by auto
  have loop: "bulk_loop http_str client h [0 ..< length h] [] w0 =
      (Inr (fst (analyze_all http_str client (utterances h) w0)),
       snd (analyze_all http_str client (utterances h) w0))" for w0
    using bulk_loop_refines[OF assms sub, of http_str client "[]" w0] by (simp add: utterances_def)
  have 1: "fst (bulk_loop http_str client h [0 ..< length h] [] w) =
           Inr (fst (analyze_all http_str client (utterances h) w))"
    by (simp add: loop)
  have 2: "length (fst (analyze_all http_str client (utterances h) w)) =
           length (filter (\<lambda>m. m ''role'' = Some ''user'') h)"
    by (simp add: length_analyze_all length_utterances)
  have 3: "map therapist_message (fst (analyze_all http_str client (utterances h) w)) =
           map (\<lambda>m. lookup m ''content'') (filter (\<lambda>m. m ''role'' = Some ''user'') h)"
    by (simp add: messages_analyze_all utterances_messages)
  have 4: "\<forall>c p w0 e. fst (retry_loop client 3 [0 ..< 3] 1 w0) = Inl e \<longrightarrow>
            fst (analyze_utterance http_str client c p w0) = fallback_record http_str c p e \<and>
            improvement (fallback_record http_str c p e) = fallback_text (exc_str http_str e) \<and>
            \<not> needs_improvement (fallback_record http_str c p e)"
    by (auto simp add: analyze_utterance_def fallback_record_def split: prod.splits)
  have 5: "\<forall>main w1. invoke_bedrock_claude client w = (Inr main, w1) \<longrightarrow>
            fst (generate_report http_str client \<lparr>transcript = t, chat_history = Some h\<rparr> w) =
              Inr \<lparr>report = main, improvements = fst (analyze_all http_str client (utterances h) w1)\<rparr>"
    by (auto simp add: generate_report_def loop utterances_def)
  from 1 2 3 4 5 show ?thesis by blast
qed

lemma five_eval:
  "fst (analyze_all http_exception_str (Some (failing_at 3)) (utterances five_turns) \<lparr>calls = 1, sleeps = []\<rparr>) =
     [analysis_record ''one'' [] ''STATUS: GOOD'',
      analysis_record ''two'' [] ''STATUS: GOOD'',
      fallback_record http_exception_str ''three'' [] (HTTPException 500 ''Bedrock error: ValidationException''),
      analysis_record ''four'' [] ''STATUS: GOOD'',
      analysis_record ''five'' [] ''STATUS: GOOD'']"
  by code_simp

lemma five_keyed: "well_keyed five_turns"
  by code_simp

theorem bulk_analysis_isolates_failures_witness:
  "well_keyed five_turns \<and>
   invoke_bedrock_claude (Some (failing_at 3)) idle_world = (Inr ''STATUS: GOOD'', \<lparr>calls = 1, sleeps = []\<rparr>) \<and>
   fst (generate_report http_exception_str (Some (failing_at 3))
          \<lparr>transcript = ''t'', chat_history = Some five_turns\<rparr> idle_world) =
     Inr \<lparr>report = ''STATUS: GOOD'',
          improvements =
            [analysis_record ''one'' [] ''STATUS: GOOD'',
             analysis_record ''two'' [] ''STATUS: GOOD'',
             fallback_record http_exception_str ''three'' [] (HTTPException 500 ''Bedrock error: ValidationException''),
             analysis_record ''four'' [] ''STATUS: GOOD'',
             analysis_record ''five'' [] ''STATUS: GOOD'']\<rparr> \<and>
   length (filter (\<lambda>m. m ''role'' = Some ''user'') five_turns) = 5 \<and>
   needs_improvement (fallback_record http_exception_str ''three'' [] (HTTPException 500 ''Bedrock error: ValidationException'')) = False"
proof -
  have m: "invoke_bedrock_claude (Some (failing_at 3)) idle_world = (Inr ''STATUS: GOOD'', \<lparr>calls = 1, sleeps = []\<rparr>)"
    by (simp add: invoke_bedrock_claude_def invoke_bedrock_sync_def failing_at_def idle_world_def)
  note t = bulk_analysis_isolates_failures[OF five_keyed, of http_exception_str "Some (failing_at 3)" idle_world "''t''"]
  from t m have g: "fst (generate_report http_exception_str (Some (failing_at 3))
          \<lparr>transcript = ''t'', chat_history = Some five_turns\<rparr> idle_world) =
     Inr \<lparr>report = ''STATUS: GOOD'',
          improvements = fst (analyze_all http_exception_str (Some (failing_at 3)) (utterances five_turns) \<lparr>calls = 1, sleeps = []\<rparr>)\<rparr>"
    by blast
  from t have "length (fst (analyze_all http_exception_str (Some (failing_at 3)) (utterances five_turns) idle_world)) =
      length (filter (\<lambda>m. m ''role'' = Some ''user'') five_turns)"
    by blast
  then have l: "length (filter (\<lambda>m. m ''role'' = Some ''user'') five_turns) = 5"
    by (simp add: length_analyze_all utterances_def) (simp add: five_turns_def user_turn_def)
  have n: "needs_improvement (fallback_record http_exception_str ''three'' []
      (HTTPException 500 ''Bedrock error: ValidationException'')) = False"
    by (simp add: fallback_record_def)
  note g' = g[unfolded five_eval]
  from five_keyed m g' l n show ?thesis by (intro conjI)
qed

end
